theory Spec2Isabelle
  imports Complex_Main "HOL-Library.Log_Nat"
begin

section \<open>Footfall counter: the line-crossing logic of \<open>footFallCounter.py\<close>\<close>

text \<open>
  The counting state of the class \<open>FootfallCounter\<close> and the part of
  \<open>__init__\<close>, \<open>process_frame\<close> and \<open>run\<close> that reads or writes it.
  The detector, the video capture and the drawing calls are collaborators: what the code
  reads from them (whether the capture opened, the frame height, the tracked boxes of a
  frame) is an argument of the model. A tracked box holds finite floating-point numbers;
  the code converts each to a Python integer before any arithmetic, so a coordinate is
  modelled by the real number the float denotes and the conversion by truncation.
  \<open>roi_position\<close> and the properties of the capture enter float arithmetic or may be
  infinite or not a number, so there the float itself is modelled.
\<close>

subsection \<open>Python primitives\<close>

datatype py_error = IndexError | ValueError | OverflowError

text \<open>\<open>int(x)\<close> on a finite float: truncation towards zero.\<close>

definition py_int :: "real \<Rightarrow> int" where
  "py_int r = (if r < 0 then \<lceil>r\<rceil> else \<lfloor>r\<rfloor>)"

text \<open>\<open>xs[i]\<close>: a negative index counts from the end, an index out of range raises.\<close>

definition py_index :: "'a list \<Rightarrow> int \<Rightarrow> py_error + 'a" where
  "py_index xs i =
     (if 0 \<le> i \<and> i < int (length xs) then Inr (xs ! nat i)
      else if i < 0 \<and> - int (length xs) \<le> i then Inr (xs ! nat (int (length xs) + i))
      else Inl IndexError)"

text \<open>\<open>xs.pop(0)\<close>: removes the first element, raises on the empty list.\<close>

definition pop0 :: "'a list \<Rightarrow> py_error + 'a list" where
  "pop0 xs = (case xs of [] \<Rightarrow> Inl IndexError | x # rest \<Rightarrow> Inr rest)"

subsection \<open>Python floats\<close>

text \<open>
  A Python float is an IEEE 754 binary64 number: \<open>Finite m e\<close> is the number
  \<open>m * 2 ^ e\<close>, a double when \<open>m\<close> has at most 53 bits, \<open>e\<close> is at least - 1074
  and the number lies below \<open>2 ^ 1024\<close> in magnitude. The sign of a zero is not kept:
  no operation below tells the two zeros apart.
\<close>

datatype py_float = Finite int int | PosInf | NegInf | NaN

text \<open>The nearest integer to \<open>a / 2 ^ s\<close>, a tie going to the even one.\<close>

definition rne :: "int \<Rightarrow> nat \<Rightarrow> int" where
  "rne a s =
     (let q = a div 2 ^ s; r = a mod 2 ^ s
      in if 2 * r < 2 ^ s then q
         else if 2 ^ s < 2 * r then q + 1
         else if even q then q else q + 1)"

text \<open>
  The double nearest to \<open>n * 2 ^ e\<close>, ties to even: the magnitude keeps 53 bits and no
  bit below \<open>2 ^ - 1074\<close>; a result that reaches \<open>2 ^ 1024\<close> is infinite.
\<close>

definition round_double :: "int \<Rightarrow> int \<Rightarrow> py_float" where
  "round_double n e =
     (let a = \<bar>n\<bar>;
          s = max (bitlen a - 53) (- 1074 - e);
          q = (if s \<le> 0 then a else rne a (nat s));
          e' = (if s \<le> 0 then e else e + s)
      in if q \<noteq> 0 \<and> 1024 < bitlen q + e' then (if 0 < n then PosInf else NegInf)
         else Finite (sgn n * q) e')"

text \<open>
  The conversion of an \<open>int\<close> operand to a float in mixed arithmetic: correctly rounded,
  \<open>OverflowError\<close> when the integer is too large.
\<close>

definition float_of_int :: "int \<Rightarrow> py_error + py_float" where
  "float_of_int h =
     (case round_double h 0 of
        PosInf \<Rightarrow> Inl OverflowError
      | NegInf \<Rightarrow> Inl OverflowError
      | f \<Rightarrow> Inr f)"

text \<open>Float multiplication: the exact product rounded; it never raises.\<close>

definition inf_times :: "int \<Rightarrow> py_float" where
  "inf_times m = (if m = 0 then NaN else if 0 < m then PosInf else NegInf)"

fun float_mul :: "py_float \<Rightarrow> py_float \<Rightarrow> py_float" where
  "float_mul NaN y = NaN"
| "float_mul x NaN = NaN"
| "float_mul (Finite m1 e1) (Finite m2 e2) = round_double (m1 * m2) (e1 + e2)"
| "float_mul (Finite m e) PosInf = inf_times m"
| "float_mul (Finite m e) NegInf = inf_times (- m)"
| "float_mul PosInf (Finite m e) = inf_times m"
| "float_mul NegInf (Finite m e) = inf_times (- m)"
| "float_mul PosInf PosInf = PosInf"
| "float_mul PosInf NegInf = NegInf"
| "float_mul NegInf PosInf = NegInf"
| "float_mul NegInf NegInf = PosInf"

text \<open>
  \<open>int(x)\<close> on a float: truncation towards zero, \<open>OverflowError\<close> on an infinity,
  \<open>ValueError\<close> on a NaN.
\<close>

definition int_of_float :: "py_float \<Rightarrow> py_error + int" where
  "int_of_float x =
     (case x of
        Finite m e \<Rightarrow>
          Inr (if 0 \<le> e then m * 2 ^ nat e else sgn m * (\<bar>m\<bar> div 2 ^ nat (- e)))
      | PosInf \<Rightarrow> Inl OverflowError
      | NegInf \<Rightarrow> Inl OverflowError
      | NaN \<Rightarrow> Inl ValueError)"

subsection \<open>The counting state\<close>

datatype crossing = ENTRY | EXIT

type_synonym point = "int \<times> int"
type_synonym box = "real \<times> real \<times> real \<times> real"

text \<open>
  The fields of \<open>FootfallCounter\<close> that the counting logic uses (lines 47 to 53).
  \<open>track_history\<close> is a \<open>defaultdict(lambda: [])\<close>: a map whose missing keys read
  as the empty list.
\<close>

record counter =
  roi_line_y :: int
  entry_count :: int
  exit_count :: int
  counted_ids :: "int set"
  track_history :: "int \<rightharpoonup> point list"

definition history :: "counter \<Rightarrow> int \<Rightarrow> point list" where
  "history st track_id = (case track_history st track_id of None \<Rightarrow> [] | Some track \<Rightarrow> track)"

text \<open>Lines 47 to 53: the state \<open>__init__\<close> leaves, for a given line.\<close>

definition new_counter :: "int \<Rightarrow> counter" where
  "new_counter line_y =
     \<lparr>roi_line_y = line_y, entry_count = 0, exit_count = 0, counted_ids = {},
      track_history = Map.empty\<rparr>"

text \<open>
  What \<open>__init__\<close> reads from \<open>cv2.VideoCapture\<close>: \<open>isOpened()\<close> and the four
  properties that \<open>get\<close> returns as floats.
\<close>

record capture =
  isOpened :: bool
  frame_width :: py_float
  frame_height :: py_float
  fps :: py_float
  frame_count :: py_float

text \<open>
  \<open>__init__\<close> (lines 27 to 58). Line 38 raises \<open>ValueError\<close> when the capture did not
  open; lines 41 to 44 convert the four properties with \<open>int\<close>; line 47 multiplies the
  integer height by the float \<open>roi_position\<close>, in double arithmetic, and converts the
  product with \<open>int\<close>. Nothing checks \<open>roi_position\<close> or the height. Loading the
  detector and creating the video writer are taken to return.
\<close>

definition FootfallCounter_init :: "capture \<Rightarrow> py_float \<Rightarrow> py_error + counter" where
  "FootfallCounter_init cap roi_position =
     (if \<not> isOpened cap then Inl ValueError
      else
        case int_of_float (frame_width cap) of Inl err \<Rightarrow> Inl err | Inr width \<Rightarrow>
        case int_of_float (frame_height cap) of Inl err \<Rightarrow> Inl err | Inr height \<Rightarrow>
        case int_of_float (fps cap) of Inl err \<Rightarrow> Inl err | Inr fps_int \<Rightarrow>
        case int_of_float (frame_count cap) of Inl err \<Rightarrow> Inl err | Inr total_frames \<Rightarrow>
        case float_of_int height of Inl err \<Rightarrow> Inl err | Inr height_float \<Rightarrow>
        case int_of_float (float_mul height_float roi_position) of
          Inl err \<Rightarrow> Inl err
        | Inr line_y \<Rightarrow> Inr (new_counter line_y))"

subsection \<open>\<open>process_frame\<close>\<close>

text \<open>Lines 71 and 72: the box corners as integers, then the centre by floor division.\<close>

definition box_center :: "box \<Rightarrow> point" where
  "box_center b =
     (case b of (bx1, by1, bx2, by2) \<Rightarrow>
        let x1 = py_int bx1; y1 = py_int by1; x2 = py_int bx2; y2 = py_int by2
        in ((x1 + x2) div 2, (y1 + y2) div 2))"

text \<open>
  Lines 74 to 92, the body of the loop for one track identifier and one centre: the
  history update, then the crossing rule. The result is the new state and the local
  \<open>crossing\<close>.
\<close>

definition observe :: "counter \<Rightarrow> int \<Rightarrow> point \<Rightarrow> py_error + (counter \<times> crossing option)" where
  "observe st track_id c =
     (let appended = history st track_id @ [c]
      in case (if length appended > 30 then pop0 appended else Inr appended) of
           Inl e \<Rightarrow> Inl e
         | Inr track \<Rightarrow>
             let st1 = st\<lparr>track_history := (track_history st)(track_id \<mapsto> track)\<rparr>
             in if length track \<ge> 2 \<and> track_id \<notin> counted_ids st1 then
                  (case py_index track (- 2) of
                     Inl e \<Rightarrow> Inl e
                   | Inr prev_pt \<Rightarrow>
                       (case py_index track (- 1) of
                          Inl e \<Rightarrow> Inl e
                        | Inr curr_pt \<Rightarrow>
                            let prev_cy = snd prev_pt; curr_cy = snd curr_pt
                            in if prev_cy < roi_line_y st1 \<and> curr_cy \<ge> roi_line_y st1 then
                                 Inr (st1\<lparr>entry_count := entry_count st1 + 1,
                                          counted_ids := insert track_id (counted_ids st1)\<rparr>,
                                      Some ENTRY)
                               else if prev_cy > roi_line_y st1 \<and> curr_cy \<le> roi_line_y st1 then
                                 Inr (st1\<lparr>exit_count := exit_count st1 + 1,
                                          counted_ids := insert track_id (counted_ids st1)\<rparr>,
                                      Some EXIT)
                               else Inr (st1, None)))
                else Inr (st1, None))"

text \<open>
  Line 70: the loop over \<open>zip(boxes, track_ids)\<close>. The result lists the value of
  \<open>crossing\<close> for each box, in order.
\<close>

fun process_boxes :: "counter \<Rightarrow> (box \<times> int) list \<Rightarrow> py_error + (counter \<times> crossing option list)" where
  "process_boxes st [] = Inr (st, [])"
| "process_boxes st ((b, track_id) # rest) =
     (case observe st track_id (box_center b) of
        Inl e \<Rightarrow> Inl e
      | Inr (st1, crossing) \<Rightarrow>
          (case process_boxes st1 rest of
             Inl e \<Rightarrow> Inl e
           | Inr (st2, evs) \<Rightarrow> Inr (st2, crossing # evs)))"

text \<open>
  \<open>process_frame\<close> (lines 60 to 114). The argument is what the tracker returned for the
  frame: \<open>None\<close> when \<open>results[0].boxes.id\<close> is \<open>None\<close>, otherwise the boxes with
  their identifiers.
\<close>

definition process_frame :: "counter \<Rightarrow> (box \<times> int) list option \<Rightarrow> py_error + (counter \<times> crossing option list)" where
  "process_frame st results =
     (case results of None \<Rightarrow> Inr (st, []) | Some dets \<Rightarrow> process_boxes st dets)"

text \<open>
  The loop of \<open>run\<close> (lines 121 to 128) over the frames that are read; the events of
  the frames are concatenated.
\<close>

fun run :: "counter \<Rightarrow> (box \<times> int) list option list \<Rightarrow> py_error + (counter \<times> crossing option list)" where
  "run st [] = Inr (st, [])"
| "run st (results # frames) =
     (case process_frame st results of
        Inl e \<Rightarrow> Inl e
      | Inr (st1, evs1) \<Rightarrow>
          (case run st1 frames of
             Inl e \<Rightarrow> Inl e
           | Inr (st2, evs2) \<Rightarrow> Inr (st2, evs1 @ evs2)))"

text \<open>The detections of a run, in the order the loop sees them.\<close>

definition detections :: "(box \<times> int) list option list \<Rightarrow> (box \<times> int) list" where
  "detections frames = concat (map (\<lambda>r. case r of None \<Rightarrow> [] | Some dets \<Rightarrow> dets) frames)"

subsection \<open>Operations the class does not have\<close>

text \<open>
  Modelled from the spec: \<open>reset()\<close>. The class has no such method; the specification
  describes it as clearing the history, the counted set and both counters, the line staying
  as constructed. That is lines 50 to 53 of \<open>__init__\<close> run again on the object.
\<close>

definition reset :: "counter \<Rightarrow> counter" where
  "reset st = st\<lparr>entry_count := 0, exit_count := 0, counted_ids := {},
                 track_history := Map.empty\<rparr>"

text \<open>
  Modelled from the spec: \<open>summary()\<close>. The class has no such method; the
  specification describes a pure read of the counters with the net flow, the three numbers
  that \<open>run\<close> prints at lines 145 to 147.
\<close>

definition summary :: "counter \<Rightarrow> int \<times> int \<times> int" where
  "summary st = (entry_count st, exit_count st, entry_count st - exit_count st)"

subsection \<open>Notions used to state the properties\<close>

text \<open>Lines 75 to 77 in closed form: append, and drop the oldest entry of a full history.\<close>

definition capped :: "point list \<Rightarrow> point \<Rightarrow> point list" where
  "capped h c = (if length h \<ge> 30 then tl h @ [c] else h @ [c])"

definition last30 :: "'a list \<Rightarrow> 'a list" where
  "last30 xs = drop (length xs - 30) xs"

text \<open>
  The two branches of the crossing rule (lines 80, 83 and 88), read on the state before
  the observation: the previous centre is the last entry of the stored history.
\<close>

definition entry_rule :: "counter \<Rightarrow> int \<Rightarrow> point \<Rightarrow> bool" where
  "entry_rule st track_id c \<longleftrightarrow>
     track_id \<notin> counted_ids st \<and> history st track_id \<noteq> [] \<and>
     snd (last (history st track_id)) < roi_line_y st \<and> roi_line_y st \<le> snd c"

definition exit_rule :: "counter \<Rightarrow> int \<Rightarrow> point \<Rightarrow> bool" where
  "exit_rule st track_id c \<longleftrightarrow>
     track_id \<notin> counted_ids st \<and> history st track_id \<noteq> [] \<and>
     roi_line_y st < snd (last (history st track_id)) \<and> snd c \<le> roi_line_y st"

text \<open>The crossing events emitted for one identifier, and the centres observed for it.\<close>

definition events_of :: "int \<Rightarrow> (box \<times> int) list \<Rightarrow> crossing option list \<Rightarrow> crossing option list" where
  "events_of track_id ds evs =
     map snd (filter (\<lambda>(d, ev). snd d = track_id \<and> ev \<noteq> None) (zip ds evs))"

definition centres_of :: "int \<Rightarrow> (box \<times> int) list \<Rightarrow> point list" where
  "centres_of track_id ds = map (\<lambda>d. box_center (fst d)) (filter (\<lambda>d. snd d = track_id) ds)"

text \<open>
  Two detections agree on the identifier and on the y-component of the centre; two states
  agree on everything but the x-components stored in the histories.
\<close>

definition agree_id_y :: "box \<times> int \<Rightarrow> box \<times> int \<Rightarrow> bool" where
  "agree_id_y d1 d2 \<longleftrightarrow>
     snd d1 = snd d2 \<and> snd (box_center (fst d1)) = snd (box_center (fst d2))"

definition y_equiv :: "counter \<Rightarrow> counter \<Rightarrow> bool" where
  "y_equiv s1 s2 \<longleftrightarrow>
     roi_line_y s1 = roi_line_y s2 \<and> entry_count s1 = entry_count s2 \<and>
     exit_count s1 = exit_count s2 \<and> counted_ids s1 = counted_ids s2 \<and>
     (\<forall>t. map snd (history s1 t) = map snd (history s2 t))"

text \<open>
  The value of \<open>Finite m e\<close>; the floats that are finite, and the representations of
  finite doubles.
\<close>

definition float_val :: "int \<Rightarrow> int \<Rightarrow> real" where
  "float_val m e =
     (if 0 \<le> e then real_of_int (m * 2 ^ nat e) else real_of_int m / 2 ^ nat (- e))"

definition is_finite :: "py_float \<Rightarrow> bool" where
  "is_finite x = (case x of Finite m e \<Rightarrow> True | PosInf \<Rightarrow> False | NegInf \<Rightarrow> False | NaN \<Rightarrow> False)"

definition finite_double :: "py_float \<Rightarrow> bool" where
  "finite_double x =
     (case x of
        Finite m e \<Rightarrow> bitlen \<bar>m\<bar> \<le> 53 \<and> - 1074 \<le> e \<and> bitlen \<bar>m\<bar> + e \<le> 1024
      | PosInf \<Rightarrow> False | NegInf \<Rightarrow> False | NaN \<Rightarrow> False)"

section \<open>One observation\<close>

lemma py_index_last2:
  "2 \<le> length xs \<Longrightarrow> py_index xs (- 2) = Inr (xs ! (length xs - 2))"
  by (auto simp: py_index_def nat_diff_distrib' intro!: arg_cong[where f="\<lambda>i. xs ! i"])

lemma py_index_last1:
  "xs \<noteq> [] \<Longrightarrow> py_index xs (- 1) = Inr (last xs)"
  by (cases xs rule: rev_cases) (auto simp: py_index_def nat_add_distrib)


lemma trim_capped:
  "(if length (h @ [c]) > 30 then pop0 (h @ [c]) else Inr (h @ [c])) = Inr (capped h c)"
  by (cases h) (auto simp: pop0_def capped_def)

lemma capped_last: "last (capped h c) = c"
  by (simp add: capped_def)

lemma capped_ne: "capped h c \<noteq> []"
  by (simp add: capped_def)

lemma capped_len2: "2 \<le> length (capped h c) \<longleftrightarrow> h \<noteq> []"
  by (cases h) (auto simp: capped_def)

lemma capped_prev: "h \<noteq> [] \<Longrightarrow> capped h c ! (length (capped h c) - 2) = last h"
proof -
  assume ne: "h \<noteq> []"
  have snoc: "(xs @ [c]) ! (length (xs @ [c]) - 2) = last xs" if "xs \<noteq> []" for xs :: "point list"
    using that by (cases xs rule: rev_cases) (auto simp: nth_append)
  show ?thesis
  proof (cases "length h \<ge> 30")
    case True
    then have "tl h \<noteq> []" by (cases h) auto
    then show ?thesis using True snoc[of "tl h"] by (simp add: capped_def last_tl)
  next
    case False
    then show ?thesis using ne snoc[of h] by (simp add: capped_def)
  qed
qed

lemma observe_eq:
  "observe st track_id c =
     Inr (let track = capped (history st track_id) c;
              st1 = st\<lparr>track_history := (track_history st)(track_id \<mapsto> track)\<rparr>
          in if history st track_id \<noteq> [] \<and> track_id \<notin> counted_ids st then
               if snd (last (history st track_id)) < roi_line_y st \<and> roi_line_y st \<le> snd c then
                 (st1\<lparr>entry_count := entry_count st + 1, counted_ids := insert track_id (counted_ids st)\<rparr>, Some ENTRY)
               else if roi_line_y st < snd (last (history st track_id)) \<and> snd c \<le> roi_line_y st then
                 (st1\<lparr>exit_count := exit_count st + 1, counted_ids := insert track_id (counted_ids st)\<rparr>, Some EXIT)
               else (st1, None)
             else (st1, None))"
  unfolding observe_def Let_def trim_capped
  by (simp add: py_index_last2 py_index_last1 capped_ne capped_len2 capped_prev capped_last)


lemma observe_total: "\<exists>st' ev. observe st track_id c = Inr (st', ev)"
  by (simp add: observe_eq Let_def)

lemma history_upd:
  "history (st\<lparr>track_history := (track_history st)(track_id \<mapsto> track)\<rparr>) t =
     (if t = track_id then track else history st t)"
  by (simp add: history_def)

lemma history_more [simp]:
  "history (st\<lparr>entry_count := a\<rparr>) = history st"
  "history (st\<lparr>exit_count := b\<rparr>) = history st"
  "history (st\<lparr>counted_ids := s\<rparr>) = history st"
  by (simp_all add: history_def fun_eq_iff)

lemma observe_history:
  assumes "observe st track_id c = Inr (st', ev)"
  shows "history st' t = (if t = track_id then capped (history st track_id) c else history st t)"
  using assms by (auto simp: observe_eq Let_def history_upd split: if_splits)

lemma observe_line:
  assumes "observe st track_id c = Inr (st', ev)"
  shows "roi_line_y st' = roi_line_y st"
  using assms by (auto simp: observe_eq Let_def split: if_splits)



lemma observe_event:
  assumes "observe st track_id c = Inr (st', ev)"
  shows "ev = (if entry_rule st track_id c then Some ENTRY
               else if exit_rule st track_id c then Some EXIT else None)"
  using assms by (auto simp: observe_eq Let_def entry_rule_def exit_rule_def split: if_splits)

lemma observe_counts:
  assumes "observe st track_id c = Inr (st', ev)"
  shows "entry_count st' = entry_count st + (if ev = Some ENTRY then 1 else 0)"
    and "exit_count st' = exit_count st + (if ev = Some EXIT then 1 else 0)"
  using assms by (auto simp: observe_eq Let_def split: if_splits)

lemma observe_counted:
  assumes "observe st track_id c = Inr (st', ev)"
  shows "counted_ids st' = (if ev = None then counted_ids st else insert track_id (counted_ids st))"
    and "ev \<noteq> None \<Longrightarrow> track_id \<notin> counted_ids st"
  using assms by (auto simp: observe_eq Let_def split: if_splits)

section \<open>A sequence of observations\<close>

lemma last30_short: "length xs \<le> 30 \<Longrightarrow> last30 xs = xs"
  by (simp add: last30_def)

lemma length_last30: "length (last30 xs) = min 30 (length xs)"
  by (simp add: last30_def)

lemma capped_last30: "capped (last30 H) c = last30 (H @ [c])"
proof (cases "length H \<ge> 30")
  case True
  then have "Suc (length H - 30) = length H - 29" by arith
  then have "tl (drop (length H - 30) H) = drop (length H - 29) H"
    by (simp add: tl_drop drop_Suc[symmetric] del: drop_Suc)
  with True show ?thesis
    by (simp add: capped_def last30_def)
next
  case False
  then show ?thesis by (simp add: capped_def last30_def)
qed

lemma process_boxes_total:
  "\<exists>st' evs. process_boxes st ds = Inr (st', evs) \<and> length evs = length ds"
proof (induction ds arbitrary: st)
  case Nil
  show ?case by simp
next
  case (Cons d ds)
  obtain b t where d: "d = (b, t)" by (cases d)
  obtain st1 ev where o: "observe st t (box_center b) = Inr (st1, ev)"
    using observe_total by blast
  from Cons.IH[of st1] obtain st2 evs where "process_boxes st1 ds = Inr (st2, evs)" "length evs = length ds"
    by blast
  with d o show ?case by simp
qed

lemma process_boxes_ConsD:
  assumes "process_boxes st ((b, t) # ds) = Inr (st', evs)"
  shows "\<exists>st1 ev evs1. observe st t (box_center b) = Inr (st1, ev) \<and>
           process_boxes st1 ds = Inr (st', evs1) \<and> evs = ev # evs1"
  using assms by (auto split: sum.splits)

lemma process_boxes_append:
  "process_boxes st (ds1 @ ds2) =
     (case process_boxes st ds1 of
        Inl e \<Rightarrow> Inl e
      | Inr (st1, evs1) \<Rightarrow>
          (case process_boxes st1 ds2 of
             Inl e \<Rightarrow> Inl e
           | Inr (st2, evs2) \<Rightarrow> Inr (st2, evs1 @ evs2)))"
  by (induction ds1 arbitrary: st) (auto split: sum.splits)

lemma run_eq: "run st frames = process_boxes st (detections frames)"
  by (induction frames arbitrary: st)
     (auto simp: detections_def process_frame_def process_boxes_append split: sum.splits option.splits)

lemma pb_line:
  "process_boxes st ds = Inr (st', evs) \<Longrightarrow> roi_line_y st' = roi_line_y st"
proof (induction ds arbitrary: st evs)
  case Nil
  then show ?case by simp
next
  case (Cons d ds)
  obtain b t where d: "d = (b, t)" by (cases d)
  from Cons.prems(1) obtain st1 ev evs1 where
    o: "observe st t (box_center b) = Inr (st1, ev)" and r: "process_boxes st1 ds = Inr (st', evs1)"
    unfolding d by (blast dest: process_boxes_ConsD)
  from Cons.IH[OF r] observe_line[OF o] show ?case by simp
qed

lemma pb_history:
  "process_boxes st ds = Inr (st', evs) \<Longrightarrow> history st track_id = last30 H \<Longrightarrow>
     history st' track_id = last30 (H @ centres_of track_id ds)"
proof (induction ds arbitrary: st evs H)
  case Nil
  then show ?case by (simp add: centres_of_def)
next
  case (Cons d ds)
  obtain b t where d: "d = (b, t)" by (cases d)
  from Cons.prems(1) obtain st1 ev evs1 where
    o: "observe st t (box_center b) = Inr (st1, ev)" and r: "process_boxes st1 ds = Inr (st', evs1)"
    unfolding d by (blast dest: process_boxes_ConsD)
  show ?case
  proof (cases "t = track_id")
    case True
    have "history st1 track_id = last30 (H @ [box_center b])"
      using observe_history[OF o, of track_id] True Cons.prems(2) by (simp add: capped_last30)
    from Cons.IH[OF r this] show ?thesis using True d by (simp add: centres_of_def)
  next
    case False
    have "history st1 track_id = last30 H"
      using observe_history[OF o, of track_id] False Cons.prems(2) by simp
    from Cons.IH[OF r this] show ?thesis using False d by (simp add: centres_of_def)
  qed
qed

lemma pb_counts:
  "process_boxes st ds = Inr (st', evs) \<Longrightarrow>
     entry_count st' = entry_count st + int (count_list evs (Some ENTRY)) \<and>
     exit_count st' = exit_count st + int (count_list evs (Some EXIT))"
proof (induction ds arbitrary: st evs)
  case Nil
  then show ?case by simp
next
  case (Cons d ds)
  obtain b t where d: "d = (b, t)" by (cases d)
  from Cons.prems(1) obtain st1 ev evs1 where
    o: "observe st t (box_center b) = Inr (st1, ev)" and r: "process_boxes st1 ds = Inr (st', evs1)"
    and e: "evs = ev # evs1"
    unfolding d by (blast dest: process_boxes_ConsD)
  from Cons.IH[OF r] observe_counts[OF o] e show ?case by simp
qed

lemma pb_counted:
  "process_boxes st ds = Inr (st', evs) \<Longrightarrow> finite (counted_ids st) \<Longrightarrow>
     counted_ids st \<subseteq> counted_ids st' \<and> finite (counted_ids st') \<and>
     card (counted_ids st') = card (counted_ids st) + length (filter (\<lambda>e. e \<noteq> None) evs)"
proof (induction ds arbitrary: st evs)
  case Nil
  then show ?case by simp
next
  case (Cons d ds)
  obtain b t where d: "d = (b, t)" by (cases d)
  from Cons.prems(1) obtain st1 ev evs1 where
    o: "observe st t (box_center b) = Inr (st1, ev)" and r: "process_boxes st1 ds = Inr (st', evs1)"
    and e: "evs = ev # evs1"
    unfolding d by (blast dest: process_boxes_ConsD)
  have s1: "finite (counted_ids st1)" "counted_ids st \<subseteq> counted_ids st1"
    "card (counted_ids st1) = card (counted_ids st) + (if ev = None then 0 else 1)"
    using observe_counted[OF o] Cons.prems(2) by auto
  from Cons.IH[OF r s1(1)] s1 e show ?case by auto
qed

lemma pb_counted_mono:
  "process_boxes st ds = Inr (st', evs) \<Longrightarrow> counted_ids st \<subseteq> counted_ids st'"
proof (induction ds arbitrary: st evs)
  case Nil
  then show ?case by simp
next
  case (Cons d ds)
  obtain b t where d: "d = (b, t)" by (cases d)
  from Cons.prems(1) obtain st1 ev evs1 where
    o: "observe st t (box_center b) = Inr (st1, ev)" and r: "process_boxes st1 ds = Inr (st', evs1)"
    unfolding d by (blast dest: process_boxes_ConsD)
  from Cons.IH[OF r] observe_counted(1)[OF o] show ?case by (auto split: if_splits)
qed

lemma pb_once:
  "process_boxes st ds = Inr (st', evs) \<Longrightarrow>
     length (events_of track_id ds evs) \<le> (if track_id \<in> counted_ids st then 0 else 1) \<and>
     (events_of track_id ds evs \<noteq> [] \<longrightarrow> track_id \<in> counted_ids st')"
proof (induction ds arbitrary: st evs)
  case Nil
  then show ?case by (simp add: events_of_def)
next
  case (Cons d ds)
  obtain b t where d: "d = (b, t)" by (cases d)
  from Cons.prems(1) obtain st1 ev evs1 where
    o: "observe st t (box_center b) = Inr (st1, ev)" and r: "process_boxes st1 ds = Inr (st', evs1)"
    and e: "evs = ev # evs1"
    unfolding d by (blast dest: process_boxes_ConsD)
  have ev_of: "events_of track_id (d # ds) evs =
      (if t = track_id \<and> ev \<noteq> None then [ev] else []) @ events_of track_id ds evs1"
    using d e by (simp add: events_of_def)
  note c = observe_counted[OF o]
  note m = pb_counted_mono[OF r]
  show ?case
  proof (cases "t = track_id \<and> ev \<noteq> None")
    case True
    then have "track_id \<notin> counted_ids st" "track_id \<in> counted_ids st1" using c by auto
    with Cons.IH[OF r, of ] True ev_of m show ?thesis by auto
  next
    case False
    then have "track_id \<in> counted_ids st \<Longrightarrow> track_id \<in> counted_ids st1" using c by (auto split: if_splits)
    with Cons.IH[OF r] False ev_of show ?thesis by (auto split: if_splits)
  qed
qed

lemma run_total:
  "\<exists>st' evs. run st frames = Inr (st', evs) \<and> length evs = length (detections frames)"
  by (simp add: run_eq process_boxes_total)

lemmas eval_simps =
  process_frame_def observe_def history_def pop0_def py_index_def new_counter_def
  box_center_def py_int_def Let_def

section \<open>The properties\<close>

text \<open>
  C1. For a track that is not in the counted set and whose history, after the observation,
  has at least two entries: when the y-component of the entry before the last is strictly
  below the line and that of the last entry is at or beyond it, the observation emits ENTRY
  and adds one to \<open>entry_count\<close> only; when the former is strictly beyond the line and
  the latter at or below it, the observation emits EXIT and adds one to \<open>exit_count\<close>
  only. With the line at 50, the centres y = 10, 60 of one track give one ENTRY and the
  counts 1 and 0; the centres y = 60, 10 give one EXIT and the counts 0 and 1.
\<close>

theorem crossing_rule:
  "(track_id \<notin> counted_ids st \<longrightarrow>
      (\<exists>st' ev. observe st track_id c = Inr (st', ev) \<and>
         (let track = history st' track_id;
              prev_cy = snd (track ! (length track - 2));
              curr_cy = snd (track ! (length track - 1))
          in (2 \<le> length track \<and> prev_cy < roi_line_y st \<and> roi_line_y st \<le> curr_cy \<longrightarrow>
                ev = Some ENTRY \<and> entry_count st' = entry_count st + 1 \<and>
                exit_count st' = exit_count st \<and> track_id \<in> counted_ids st') \<and>
             (2 \<le> length track \<and> roi_line_y st < prev_cy \<and> curr_cy \<le> roi_line_y st \<longrightarrow>
                ev = Some EXIT \<and> exit_count st' = exit_count st + 1 \<and>
                entry_count st' = entry_count st \<and> track_id \<in> counted_ids st')))) \<and>
   (\<exists>st'. run (new_counter 50) [Some [((xa, 10, xb, 10), k)], Some [((xc, 60, xd, 60), k)]]
             = Inr (st', [None, Some ENTRY]) \<and>
          entry_count st' = 1 \<and> exit_count st' = 0) \<and>
   (\<exists>st'. run (new_counter 50) [Some [((xa, 60, xb, 60), k)], Some [((xc, 10, xd, 10), k)]]
             = Inr (st', [None, Some EXIT]) \<and>
          entry_count st' = 0 \<and> exit_count st' = 1)"
proof (intro conjI impI)
  assume nc: "track_id \<notin> counted_ids st"
  obtain st' ev where o: "observe st track_id c = Inr (st', ev)"
    using observe_total by blast
  have h: "history st' track_id = capped (history st track_id) c"
    using observe_history[OF o, of track_id] by simp
  have last1: "capped (history st track_id) c ! (length (capped (history st track_id) c) - 1) = c"
    using capped_last[of "history st track_id" c] capped_ne[of "history st track_id" c]
    by (simp add: last_conv_nth)
  note ev = observe_event[OF o]
  note cnt = observe_counts[OF o]
  note cid = observe_counted[OF o]
  have "2 \<le> length (capped (history st track_id) c) \<Longrightarrow>
        snd (capped (history st track_id) c ! (length (capped (history st track_id) c) - 2)) < roi_line_y st \<Longrightarrow>
        roi_line_y st \<le> snd c \<Longrightarrow> entry_rule st track_id c"
    using nc by (simp add: entry_rule_def capped_len2 capped_prev)
  moreover have "2 \<le> length (capped (history st track_id) c) \<Longrightarrow>
        roi_line_y st < snd (capped (history st track_id) c ! (length (capped (history st track_id) c) - 2)) \<Longrightarrow>
        snd c \<le> roi_line_y st \<Longrightarrow> exit_rule st track_id c \<and> \<not> entry_rule st track_id c"
    using nc by (simp add: entry_rule_def exit_rule_def capped_len2 capped_prev)
  ultimately show "\<exists>st' ev. observe st track_id c = Inr (st', ev) \<and>
         (let track = history st' track_id;
              prev_cy = snd (track ! (length track - 2));
              curr_cy = snd (track ! (length track - 1))
          in (2 \<le> length track \<and> prev_cy < roi_line_y st \<and> roi_line_y st \<le> curr_cy \<longrightarrow>
                ev = Some ENTRY \<and> entry_count st' = entry_count st + 1 \<and>
                exit_count st' = exit_count st \<and> track_id \<in> counted_ids st') \<and>
             (2 \<le> length track \<and> roi_line_y st < prev_cy \<and> curr_cy \<le> roi_line_y st \<longrightarrow>
                ev = Some EXIT \<and> exit_count st' = exit_count st + 1 \<and>
                entry_count st' = entry_count st \<and> track_id \<in> counted_ids st'))"
    using o h last1 ev cnt cid by (auto simp: Let_def)
next
  show "\<exists>st'. run (new_counter 50) [Some [((xa, 10, xb, 10), k)], Some [((xc, 60, xd, 60), k)]]
             = Inr (st', [None, Some ENTRY]) \<and>
          entry_count st' = 1 \<and> exit_count st' = 0"
    by (simp add: eval_simps)
next
  show "\<exists>st'. run (new_counter 50) [Some [((xa, 60, xb, 60), k)], Some [((xc, 10, xd, 10), k)]]
             = Inr (st', [None, Some EXIT]) \<and>
          entry_count st' = 0 \<and> exit_count st' = 1"
    by (simp add: eval_simps)
qed

theorem crossing_rule_witness:
  "(7::int) \<notin> counted_ids ((new_counter 50)\<lparr>track_history := [7 \<mapsto> [(0, 10)]]\<rparr>) \<and>
   (\<exists>st'. observe ((new_counter 50)\<lparr>track_history := [7 \<mapsto> [(0, 10)]]\<rparr>) 7 (0, 60)
            = Inr (st', Some ENTRY) \<and>
          history st' 7 = [(0, 10), (0, 60)] \<and> entry_count st' = 1 \<and> exit_count st' = 0 \<and>
          7 \<in> counted_ids st') \<and>
   (7::int) \<notin> counted_ids ((new_counter 50)\<lparr>track_history := [7 \<mapsto> [(0, 60)]]\<rparr>) \<and>
   (\<exists>st'. observe ((new_counter 50)\<lparr>track_history := [7 \<mapsto> [(0, 60)]]\<rparr>) 7 (0, 10)
            = Inr (st', Some EXIT) \<and>
          history st' 7 = [(0, 60), (0, 10)] \<and> entry_count st' = 0 \<and> exit_count st' = 1 \<and>
          7 \<in> counted_ids st')"
  using crossing_rule [of 7 "(new_counter 50)\<lparr>track_history := [7 \<mapsto> [(0, 10)]]\<rparr>" "(0, 60)"]
        crossing_rule [of 7 "(new_counter 50)\<lparr>track_history := [7 \<mapsto> [(0, 60)]]\<rparr>" "(0, 10)"]
  by (simp add: eval_simps)

text \<open>
  C2. An identifier triggers at most one crossing event. An observation of an identifier
  that is in the counted set emits nothing and leaves both counters and the counted set
  as they are. Over any run, from any state, the events emitted for one identifier number
  at most one; an identifier with an event is in the counted set afterwards, identifiers
  stay in the counted set, and an identifier that starts in it gets no event at all,
  however its centres move across the line.
\<close>

theorem at_most_one_event:
  "(track_id \<in> counted_ids st \<longrightarrow>
      (\<exists>st'. observe st track_id c = Inr (st', None) \<and>
         entry_count st' = entry_count st \<and> exit_count st' = exit_count st \<and>
         counted_ids st' = counted_ids st)) \<and>
   (\<exists>st' evs. run st frames = Inr (st', evs) \<and>
      length evs = length (detections frames) \<and>
      length (events_of track_id (detections frames) evs) \<le> 1 \<and>
      (events_of track_id (detections frames) evs \<noteq> [] \<longrightarrow> track_id \<in> counted_ids st') \<and>
      (track_id \<in> counted_ids st \<longrightarrow>
         events_of track_id (detections frames) evs = [] \<and> track_id \<in> counted_ids st'))"
proof (intro conjI impI)
  assume c: "track_id \<in> counted_ids st"
  obtain st' ev where o: "observe st track_id c = Inr (st', ev)"
    using observe_total by blast
  have "ev = None" using observe_counted(2)[OF o] c by blast
  with o observe_counts[OF o] observe_counted(1)[OF o]
  show "\<exists>st'. observe st track_id c = Inr (st', None) \<and>
         entry_count st' = entry_count st \<and> exit_count st' = exit_count st \<and>
         counted_ids st' = counted_ids st"
    by auto
next
  obtain st' evs where r: "run st frames = Inr (st', evs)"
    and len: "length evs = length (detections frames)"
    using run_total by blast
  then have p: "process_boxes st (detections frames) = Inr (st', evs)"
    by (simp add: run_eq)
  from pb_once[OF p, of track_id] pb_counted_mono[OF p] r len
  show "\<exists>st' evs. run st frames = Inr (st', evs) \<and>
      length evs = length (detections frames) \<and>
      length (events_of track_id (detections frames) evs) \<le> 1 \<and>
      (events_of track_id (detections frames) evs \<noteq> [] \<longrightarrow> track_id \<in> counted_ids st') \<and>
      (track_id \<in> counted_ids st \<longrightarrow>
         events_of track_id (detections frames) evs = [] \<and> track_id \<in> counted_ids st')"
    by (auto split: if_splits)
qed

theorem at_most_one_event_witness:
  "(7::int) \<in> counted_ids ((new_counter 50)\<lparr>counted_ids := {7}, track_history := [7 \<mapsto> [(0, 60)]]\<rparr>) \<and>
   (\<exists>st'. observe ((new_counter 50)\<lparr>counted_ids := {7}, track_history := [7 \<mapsto> [(0, 60)]]\<rparr>) 7 (0, 10)
           = Inr (st', None) \<and> entry_count st' = 0 \<and> exit_count st' = 0 \<and> counted_ids st' = {7}) \<and>
   (\<exists>st'. run ((new_counter 50)\<lparr>counted_ids := {7}, track_history := [7 \<mapsto> [(0, 60)]]\<rparr>)
             [Some [((0, 10, 0, 10), 7)], Some [((0, 60, 0, 60), 7)]]
           = Inr (st', [None, None]) \<and>
         events_of 7 (detections [Some [((0, 10, 0, 10), 7)], Some [((0, 60, 0, 60), 7)]])
           [None, None] = [] \<and>
         7 \<in> counted_ids st') \<and>
   (\<exists>st'. run (new_counter 50)
             [Some [((0, 10, 0, 10), 7)], Some [((0, 60, 0, 60), 7)], Some [((0, 10, 0, 10), 7)],
              Some [((0, 60, 0, 60), 7)]]
           = Inr (st', [None, Some ENTRY, None, None]) \<and>
         events_of 7 (detections [Some [((0, 10, 0, 10), 7)], Some [((0, 60, 0, 60), 7)],
                                  Some [((0, 10, 0, 10), 7)], Some [((0, 60, 0, 60), 7)]])
           [None, Some ENTRY, None, None] = [Some ENTRY] \<and>
         7 \<in> counted_ids st' \<and> entry_count st' = 1 \<and> exit_count st' = 0)"
  using at_most_one_event [of 7 "(new_counter 50)\<lparr>counted_ids := {7}, track_history := [7 \<mapsto> [(0, 60)]]\<rparr>" "(0, 10)"
          "[Some [((0, 10, 0, 10), 7)], Some [((0, 60, 0, 60), 7)]]"]
        at_most_one_event [of 7 "new_counter 50" "(0, 10)"
          "[Some [((0, 10, 0, 10), 7)], Some [((0, 60, 0, 60), 7)], Some [((0, 10, 0, 10), 7)],
              Some [((0, 60, 0, 60), 7)]]"]
  by (simp add: eval_simps events_of_def detections_def)

text \<open>
  C6. For a track that is not in the counted set, when the y-components of the last two
  history entries after the observation both equal the line, neither branch fires: no
  event, both counters unchanged, the track still uncounted. With the line at 50 the
  centres y = 50, 50 of one track give no event and the counts 0 and 0.
\<close>

theorem boundary_no_event:
  "(track_id \<notin> counted_ids st \<longrightarrow>
      (\<exists>st' ev. observe st track_id c = Inr (st', ev) \<and>
         (let track = history st' track_id
          in 2 \<le> length track \<and>
             snd (track ! (length track - 2)) = roi_line_y st \<and>
             snd (track ! (length track - 1)) = roi_line_y st \<longrightarrow>
               ev = None \<and> entry_count st' = entry_count st \<and>
               exit_count st' = exit_count st \<and> track_id \<notin> counted_ids st'))) \<and>
   (\<exists>st'. run (new_counter 50) [Some [((xa, 50, xb, 50), k)], Some [((xc, 50, xd, 50), k)]]
             = Inr (st', [None, None]) \<and>
          entry_count st' = 0 \<and> exit_count st' = 0)"
proof (intro conjI impI)
  assume nc: "track_id \<notin> counted_ids st"
  obtain st' ev where o: "observe st track_id c = Inr (st', ev)"
    using observe_total by blast
  have h: "history st' track_id = capped (history st track_id) c"
    using observe_history[OF o, of track_id] by simp
  note ev = observe_event[OF o]
  note cnt = observe_counts[OF o]
  note cid = observe_counted(1)[OF o]
  have "2 \<le> length (capped (history st track_id) c) \<Longrightarrow>
        snd (capped (history st track_id) c ! (length (capped (history st track_id) c) - 2)) = roi_line_y st \<Longrightarrow>
        \<not> entry_rule st track_id c \<and> \<not> exit_rule st track_id c"
    by (simp add: entry_rule_def exit_rule_def capped_len2 capped_prev)
  then show "\<exists>st' ev. observe st track_id c = Inr (st', ev) \<and>
         (let track = history st' track_id
          in 2 \<le> length track \<and>
             snd (track ! (length track - 2)) = roi_line_y st \<and>
             snd (track ! (length track - 1)) = roi_line_y st \<longrightarrow>
               ev = None \<and> entry_count st' = entry_count st \<and>
               exit_count st' = exit_count st \<and> track_id \<notin> counted_ids st')"
    using o h ev cnt cid nc by (auto simp: Let_def)
next
  show "\<exists>st'. run (new_counter 50) [Some [((xa, 50, xb, 50), k)], Some [((xc, 50, xd, 50), k)]]
             = Inr (st', [None, None]) \<and>
          entry_count st' = 0 \<and> exit_count st' = 0"
    by (simp add: eval_simps)
qed

theorem boundary_no_event_witness:
  "(7::int) \<notin> counted_ids ((new_counter 50)\<lparr>track_history := [7 \<mapsto> [(3, 50)]]\<rparr>) \<and>
   (\<exists>st'. observe ((new_counter 50)\<lparr>track_history := [7 \<mapsto> [(3, 50)]]\<rparr>) 7 (4, 50)
            = Inr (st', None) \<and>
          history st' 7 = [(3, 50), (4, 50)] \<and> entry_count st' = 0 \<and> exit_count st' = 0 \<and>
          7 \<notin> counted_ids st')"
  using boundary_no_event [of 7 "(new_counter 50)\<lparr>track_history := [7 \<mapsto> [(3, 50)]]\<rparr>" "(4, 50)"]
  by (simp add: eval_simps)

text \<open>
  C7. Each observation leaves each counter equal or larger by exactly one:
  \<open>entry_count\<close> grows exactly when the ENTRY branch of the crossing rule fires and
  \<open>exit_count\<close> exactly when the EXIT branch does. Over any run each counter grows by
  the number of events of its direction, so neither ever decreases.
\<close>

theorem counters_monotone:
  "(\<exists>st' ev. observe st track_id c = Inr (st', ev) \<and>
      ev = (if entry_rule st track_id c then Some ENTRY
            else if exit_rule st track_id c then Some EXIT else None) \<and>
      entry_count st' = entry_count st + (if ev = Some ENTRY then 1 else 0) \<and>
      exit_count st' = exit_count st + (if ev = Some EXIT then 1 else 0)) \<and>
   (\<exists>st' evs. run st frames = Inr (st', evs) \<and>
      entry_count st' = entry_count st + int (count_list evs (Some ENTRY)) \<and>
      exit_count st' = exit_count st + int (count_list evs (Some EXIT)) \<and>
      entry_count st \<le> entry_count st' \<and> exit_count st \<le> exit_count st')"
proof (rule conjI)
  obtain st' ev where o: "observe st track_id c = Inr (st', ev)"
    using observe_total by blast
  show "\<exists>st' ev. observe st track_id c = Inr (st', ev) \<and>
      ev = (if entry_rule st track_id c then Some ENTRY
            else if exit_rule st track_id c then Some EXIT else None) \<and>
      entry_count st' = entry_count st + (if ev = Some ENTRY then 1 else 0) \<and>
      exit_count st' = exit_count st + (if ev = Some EXIT then 1 else 0)"
    using o observe_event[OF o] observe_counts[OF o] by blast
next
  obtain st' evs where r: "run st frames = Inr (st', evs)"
    using run_total by blast
  then have "process_boxes st (detections frames) = Inr (st', evs)"
    by (simp add: run_eq)
  from pb_counts[OF this] r
  show "\<exists>st' evs. run st frames = Inr (st', evs) \<and>
      entry_count st' = entry_count st + int (count_list evs (Some ENTRY)) \<and>
      exit_count st' = exit_count st + int (count_list evs (Some EXIT)) \<and>
      entry_count st \<le> entry_count st' \<and> exit_count st \<le> exit_count st'"
    by simp
qed

lemma capped_append:
  "capped h c = (let a = h @ [c] in if length a > 30 then tl a else a)"
  by (cases h) (auto simp: capped_def Let_def)

lemma detections_single:
  "detections (map (\<lambda>b. Some [(b, track_id)]) bs) = map (\<lambda>b. (b, track_id)) bs"
  by (induction bs) (simp_all add: detections_def)

lemma centres_of_single:
  "centres_of track_id (map (\<lambda>b. (b, track_id)) bs) = map box_center bs"
  by (induction bs) (simp_all add: centres_of_def)

lemma history_new_counter: "history (new_counter line_y) t = []"
  by (simp add: history_def new_counter_def)

text \<open>
  C3. The history of a track is a first-in first-out buffer of capacity 30. One observation
  appends the centre and, when the length then exceeds 30, removes the oldest entry. After
  any run from a state whose history of the track holds at most 30 entries, the history is
  the last 30 of the old entries followed by the centres observed for the track, in order
  of arrival, and holds at most 30 entries. Feeding 40 boxes of one track to a new counter
  returns without error and leaves exactly the last 30 centres.
\<close>

theorem history_fifo_30:
  "(\<exists>st' ev. observe st track_id c = Inr (st', ev) \<and>
      history st' track_id =
        (let appended = history st track_id @ [c]
         in if length appended > 30 then tl appended else appended)) \<and>
   (length (history st track_id) \<le> 30 \<longrightarrow>
      (\<exists>st' evs. run st frames = Inr (st', evs) \<and>
         history st' track_id =
           last30 (history st track_id @ centres_of track_id (detections frames)) \<and>
         length (history st' track_id) \<le> 30)) \<and>
   (length bs = 40 \<longrightarrow>
      (\<exists>st' evs. run (new_counter line_y) (map (\<lambda>b. Some [(b, track_id)]) bs) = Inr (st', evs) \<and>
         history st' track_id = drop 10 (map box_center bs) \<and>
         length (history st' track_id) = 30))"
proof (intro conjI impI)
  obtain st' ev where o: "observe st track_id c = Inr (st', ev)"
    using observe_total by blast
  from o observe_history[OF o, of track_id]
  show "\<exists>st' ev. observe st track_id c = Inr (st', ev) \<and>
      history st' track_id =
        (let appended = history st track_id @ [c]
         in if length appended > 30 then tl appended else appended)"
    by (simp add: capped_append)
next
  assume le: "length (history st track_id) \<le> 30"
  obtain st' evs where r: "run st frames = Inr (st', evs)"
    using run_total by blast
  then have p: "process_boxes st (detections frames) = Inr (st', evs)"
    by (simp add: run_eq)
  have "history st track_id = last30 (history st track_id)"
    using le by (simp add: last30_short)
  from pb_history[OF p this] r
  show "\<exists>st' evs. run st frames = Inr (st', evs) \<and>
         history st' track_id =
           last30 (history st track_id @ centres_of track_id (detections frames)) \<and>
         length (history st' track_id) \<le> 30"
    by (simp add: length_last30)
next
  assume len: "length bs = 40"
  obtain st' evs where r: "run (new_counter line_y) (map (\<lambda>b. Some [(b, track_id)]) bs) = Inr (st', evs)"
    using run_total by blast
  then have p: "process_boxes (new_counter line_y) (map (\<lambda>b. (b, track_id)) bs) = Inr (st', evs)"
    by (simp add: run_eq detections_single)
  have "history (new_counter line_y) track_id = last30 []"
    by (simp add: history_new_counter last30_def)
  from pb_history[OF p this]
  have "history st' track_id = last30 (map box_center bs)"
    by (simp add: centres_of_single)
  with len r
  show "\<exists>st' evs. run (new_counter line_y) (map (\<lambda>b. Some [(b, track_id)]) bs) = Inr (st', evs) \<and>
         history st' track_id = drop 10 (map box_center bs) \<and>
         length (history st' track_id) = 30"
    by (simp add: last30_def)
qed

theorem history_fifo_30_witness:
  "length (history (new_counter 50) 7) \<le> 30 \<and>
   (\<exists>st' evs. run (new_counter 50) [Some [((0, 10, 0, 10), 7), ((5, 5, 5, 5), 8)], Some [((0, 60, 0, 60), 7)]]
        = Inr (st', evs) \<and> history st' 7 = [(0, 10), (0, 60)] \<and>
      length (history st' 7) \<le> 30) \<and>
   length (map (\<lambda>i. (0, real i, 0, real i)) [1..<41]) = 40 \<and>
   (\<exists>st' evs. run (new_counter 50) (map (\<lambda>b. Some [(b, 7)]) (map (\<lambda>i. (0, real i, 0, real i)) [1..<41]))
        = Inr (st', evs) \<and>
      history st' 7 = map (\<lambda>i. (0, int i)) [11..<41] \<and> length (history st' 7) = 30)"
proof -
  have c: "box_center (0, real i, 0, real i) = (0, int i)" for i
    by (simp add: box_center_def py_int_def)
  have "drop 10 (map box_center (map (\<lambda>i. (0, real i, 0, real i)) [1..<41])) = map (\<lambda>i. (0, int i)) [11..<41]"
    by (simp add: drop_map c o_def)
  then show ?thesis
    using history_fifo_30 [of "new_counter 50" 7 "(0, 0)"
        "[Some [((0, 10, 0, 10), 7), ((5, 5, 5, 5), 8)], Some [((0, 60, 0, 60), 7)]]"
        "map (\<lambda>i. (0, real i, 0, real i)) [1..<41]" 50]
    by (simp add: history_new_counter last30_def centres_of_def detections_def box_center_def py_int_def)
qed

lemma count_events:
  "count_list evs (Some ENTRY) + count_list evs (Some EXIT) = length (filter (\<lambda>e. e \<noteq> None) evs)"
proof (induction evs)
  case Nil
  show ?case by simp
next
  case (Cons e evs)
  then show ?case
  proof (cases e)
    case None
    with Cons show ?thesis by simp
  next
    case (Some d)
    with Cons show ?thesis by (cases d) simp_all
  qed
qed

text \<open>
  C9. In every state reached from construction by a run, \<open>entry_count + exit_count\<close>
  is the number of identifiers in the counted set. One observation never removes an
  identifier; it either leaves the counted set and both counters alone, or adds its own
  identifier, new to the set, and adds one to exactly one of the two counters.
\<close>

theorem counts_match_counted_set:
  "(FootfallCounter_init cap roi_position = Inr st0 \<longrightarrow>
      (\<exists>st evs. run st0 frames = Inr (st, evs) \<and> finite (counted_ids st) \<and>
         entry_count st + exit_count st = int (card (counted_ids st)))) \<and>
   (\<exists>st' ev. observe st track_id c = Inr (st', ev) \<and> counted_ids st \<subseteq> counted_ids st' \<and>
      (if ev = None
       then counted_ids st' = counted_ids st \<and> entry_count st' = entry_count st \<and>
            exit_count st' = exit_count st
       else track_id \<notin> counted_ids st \<and> counted_ids st' = insert track_id (counted_ids st) \<and>
            entry_count st' + exit_count st' = entry_count st + exit_count st + 1 \<and>
            (entry_count st' = entry_count st \<or> exit_count st' = exit_count st)))"
proof (intro conjI impI)
  assume "FootfallCounter_init cap roi_position = Inr st0"
  then obtain l where st0: "st0 = new_counter l"
    by (auto simp: FootfallCounter_init_def split: if_splits sum.splits)
  obtain st evs where r: "run st0 frames = Inr (st, evs)"
    using run_total by blast
  then have p: "process_boxes st0 (detections frames) = Inr (st, evs)"
    by (simp add: run_eq)
  have f0: "finite (counted_ids st0)" and z: "entry_count st0 = 0" "exit_count st0 = 0"
    "card (counted_ids st0) = 0"
    by (simp_all add: st0 new_counter_def)
  from pb_counted[OF p f0] pb_counts[OF p] z count_events[of evs]
  have "finite (counted_ids st)" "entry_count st + exit_count st = int (card (counted_ids st))"
    by simp_all
  with r show "\<exists>st evs. run st0 frames = Inr (st, evs) \<and> finite (counted_ids st) \<and>
         entry_count st + exit_count st = int (card (counted_ids st))"
    by blast
next
  obtain st' ev where o: "observe st track_id c = Inr (st', ev)"
    using observe_total by blast
  from o observe_counts[OF o] observe_counted[OF o]
  show "\<exists>st' ev. observe st track_id c = Inr (st', ev) \<and> counted_ids st \<subseteq> counted_ids st' \<and>
      (if ev = None
       then counted_ids st' = counted_ids st \<and> entry_count st' = entry_count st \<and>
            exit_count st' = exit_count st
       else track_id \<notin> counted_ids st \<and> counted_ids st' = insert track_id (counted_ids st) \<and>
            entry_count st' + exit_count st' = entry_count st + exit_count st + 1 \<and>
            (entry_count st' = entry_count st \<or> exit_count st' = exit_count st))"
    by (cases ev) (auto intro: crossing.exhaust)
qed

theorem counts_match_counted_set_witness:
  "FootfallCounter_init
      \<lparr>isOpened = True, frame_width = Finite 640 0, frame_height = Finite 100 0, fps = Finite 30 0, frame_count = Finite 900 0\<rparr>
      (Finite 1 (- 1)) = Inr (new_counter 50) \<and>
   (\<exists>st. run (new_counter 50)
            [Some [((0, 10, 0, 10), 7), ((0, 60, 0, 60), 8)],
             Some [((0, 60, 0, 60), 7), ((0, 10, 0, 10), 8), ((0, 20, 0, 20), 9)],
             None,
             Some [((0, 10, 0, 10), 7)]]
          = Inr (st, [None, None, Some ENTRY, Some EXIT, None, None]) \<and>
        finite (counted_ids st) \<and> counted_ids st = {7, 8} \<and>
        entry_count st = 1 \<and> exit_count st = 1 \<and>
        entry_count st + exit_count st = int (card (counted_ids st)))"
proof -
  have "float_of_int 100 = Inr (Finite 100 0)"
    and "int_of_float (float_mul (Finite 100 0) (Finite 1 (- 1))) = Inr 50"
    by code_simp+
  then have "FootfallCounter_init
      \<lparr>isOpened = True, frame_width = Finite 640 0, frame_height = Finite 100 0, fps = Finite 30 0, frame_count = Finite 900 0\<rparr>
      (Finite 1 (- 1)) = Inr (new_counter 50)"
    by (simp add: FootfallCounter_init_def int_of_float_def)
  then show ?thesis
    using counts_match_counted_set [of
            "\<lparr>isOpened = True, frame_width = Finite 640 0, frame_height = Finite 100 0, fps = Finite 30 0, frame_count = Finite 900 0\<rparr>"
            "Finite 1 (- 1)" "new_counter 50"
            "[Some [((0, 10, 0, 10), 7), ((0, 60, 0, 60), 8)],
               Some [((0, 60, 0, 60), 7), ((0, 10, 0, 10), 8), ((0, 20, 0, 20), 9)],
               None,
               Some [((0, 10, 0, 10), 7)]]"]
    by (simp add: eval_simps insert_commute)
qed

lemma y_equiv_refl: "y_equiv st st"
  by (simp add: y_equiv_def)

lemma map_snd_capped:
  assumes "map snd h1 = map snd h2" and "snd c1 = snd c2"
  shows "map snd (capped h1 c1) = map snd (capped h2 c2)"
proof -
  have "length h1 = length h2" using assms(1) by (rule map_eq_imp_length_eq)
  moreover have "map snd (tl h1) = map snd (tl h2)" using assms(1) by (simp add: map_tl)
  ultimately show ?thesis using assms by (simp add: capped_def)
qed

lemma observe_y_equiv:
  assumes eq: "y_equiv s1 s2" and c: "snd c1 = snd c2"
    and o1: "observe s1 t c1 = Inr (s1', e1)" and o2: "observe s2 t c2 = Inr (s2', e2)"
  shows "e1 = e2 \<and> y_equiv s1' s2'"
proof -
  from eq have line: "roi_line_y s1 = roi_line_y s2" and cid: "counted_ids s1 = counted_ids s2"
    and cnt: "entry_count s1 = entry_count s2" "exit_count s1 = exit_count s2"
    and h: "\<And>u. map snd (history s1 u) = map snd (history s2 u)"
    by (simp_all add: y_equiv_def)
  have "length (history s1 t) = length (history s2 t)"
    using h[of t] by (rule map_eq_imp_length_eq)
  then have ne: "history s1 t = [] \<longleftrightarrow> history s2 t = []"
    by (simp only: length_0_conv[symmetric])
  have lst: "snd (last (history s1 t)) = snd (last (history s2 t))" if "history s1 t \<noteq> []"
  proof -
    have "snd (last (history s1 t)) = last (map snd (history s1 t))"
      using that by (simp add: last_map)
    also have "\<dots> = last (map snd (history s2 t))"
      by (simp only: h[of t])
    also have "\<dots> = snd (last (history s2 t))"
      using that ne by (simp add: last_map)
    finally show ?thesis .
  qed
  have er: "entry_rule s1 t c1 = entry_rule s2 t c2"
    unfolding entry_rule_def line cid c using ne lst by auto
  have xr: "exit_rule s1 t c1 = exit_rule s2 t c2"
    unfolding exit_rule_def line cid c using ne lst by auto
  have ev: "e1 = e2"
    unfolding observe_event[OF o1] observe_event[OF o2] er xr ..
  have hist: "map snd (history s1' u) = map snd (history s2' u)" for u
    unfolding observe_history[OF o1, of u] observe_history[OF o2, of u]
    using h[of u] map_snd_capped[OF h[of t] c] by simp
  have l': "roi_line_y s1' = roi_line_y s2'"
    unfolding observe_line[OF o1] observe_line[OF o2] by (rule line)
  have n': "entry_count s1' = entry_count s2'" "exit_count s1' = exit_count s2'"
    unfolding observe_counts[OF o1] observe_counts[OF o2] ev cnt by simp_all
  have c': "counted_ids s1' = counted_ids s2'"
    unfolding observe_counted(1)[OF o1] observe_counted(1)[OF o2] ev cid ..
  show ?thesis
    unfolding y_equiv_def using ev hist l' n' c' by blast
qed

lemma pb_y_equiv:
  assumes "list_all2 agree_id_y ds1 ds2"
  shows "y_equiv s1 s2 \<Longrightarrow> process_boxes s1 ds1 = Inr (s1', evs1) \<Longrightarrow>
         process_boxes s2 ds2 = Inr (s2', evs2) \<Longrightarrow> evs1 = evs2 \<and> y_equiv s1' s2'"
  using assms
proof (induction ds1 ds2 arbitrary: s1 s2 evs1 evs2 rule: list_all2_induct)
  case Nil
  then show ?case by simp
next
  case (Cons d1 ds1 d2 ds2)
  obtain b1 t where d1: "d1 = (b1, t)" by (cases d1)
  obtain b2 where d2: "d2 = (b2, t)" and cy: "snd (box_center b1) = snd (box_center b2)"
    using Cons.hyps(1) d1 by (cases d2) (auto simp: agree_id_y_def)
  from Cons.prems(2) obtain m1 e1 r1 where
    o1: "observe s1 t (box_center b1) = Inr (m1, e1)" and p1: "process_boxes m1 ds1 = Inr (s1', r1)"
    and v1: "evs1 = e1 # r1"
    unfolding d1 by (blast dest: process_boxes_ConsD)
  from Cons.prems(3) obtain m2 e2 r2 where
    o2: "observe s2 t (box_center b2) = Inr (m2, e2)" and p2: "process_boxes m2 ds2 = Inr (s2', r2)"
    and v2: "evs2 = e2 # r2"
    unfolding d2 by (blast dest: process_boxes_ConsD)
  from observe_y_equiv[OF Cons.prems(1) cy o1 o2] have e: "e1 = e2" and m: "y_equiv m1 m2"
    by simp_all
  from Cons.IH[OF m p1 p2] e v1 v2 show ?case by simp
qed

text \<open>
  C10. The events and both counters depend on the identifiers, the y-components of the
  centres and the line only. Two sequences of detections that agree, position by position,
  on the identifier and on the y-component of the centre give, from a common state and
  after every number of steps, the same events, the same counters and the same counted
  set, whatever the x-coordinates are; the same holds for two runs.
\<close>

theorem x_coordinates_irrelevant:
  "(list_all2 agree_id_y ds1 ds2 \<longrightarrow>
      (\<exists>st1 st2 evs.
         process_boxes st (take n ds1) = Inr (st1, evs) \<and>
         process_boxes st (take n ds2) = Inr (st2, evs) \<and>
         length evs = min n (length ds1) \<and>
         entry_count st1 = entry_count st2 \<and> exit_count st1 = exit_count st2 \<and>
         counted_ids st1 = counted_ids st2)) \<and>
   (list_all2 agree_id_y (detections frames1) (detections frames2) \<longrightarrow>
      (\<exists>st1 st2 evs.
         run st frames1 = Inr (st1, evs) \<and> run st frames2 = Inr (st2, evs) \<and>
         entry_count st1 = entry_count st2 \<and> exit_count st1 = exit_count st2 \<and>
         counted_ids st1 = counted_ids st2))"
proof (intro conjI impI)
  assume a: "list_all2 agree_id_y ds1 ds2"
  then have a': "list_all2 agree_id_y (take n ds1) (take n ds2)"
    by (rule list_all2_takeI)
  obtain st1 evs1 where p1: "process_boxes st (take n ds1) = Inr (st1, evs1)"
    and l1: "length evs1 = length (take n ds1)"
    using process_boxes_total by blast
  obtain st2 evs2 where p2: "process_boxes st (take n ds2) = Inr (st2, evs2)"
    using process_boxes_total by blast
  from pb_y_equiv[OF a' y_equiv_refl p1 p2] have "evs1 = evs2" "y_equiv st1 st2"
    by simp_all
  with p1 p2 l1
  show "\<exists>st1 st2 evs.
         process_boxes st (take n ds1) = Inr (st1, evs) \<and>
         process_boxes st (take n ds2) = Inr (st2, evs) \<and>
         length evs = min n (length ds1) \<and>
         entry_count st1 = entry_count st2 \<and> exit_count st1 = exit_count st2 \<and>
         counted_ids st1 = counted_ids st2"
    by (auto simp: y_equiv_def min.commute)
next
  assume a: "list_all2 agree_id_y (detections frames1) (detections frames2)"
  obtain st1 evs1 where p1: "process_boxes st (detections frames1) = Inr (st1, evs1)"
    using process_boxes_total by blast
  obtain st2 evs2 where p2: "process_boxes st (detections frames2) = Inr (st2, evs2)"
    using process_boxes_total by blast
  from pb_y_equiv[OF a y_equiv_refl p1 p2] have "evs1 = evs2" "y_equiv st1 st2"
    by simp_all
  with p1 p2
  show "\<exists>st1 st2 evs.
         run st frames1 = Inr (st1, evs) \<and> run st frames2 = Inr (st2, evs) \<and>
         entry_count st1 = entry_count st2 \<and> exit_count st1 = exit_count st2 \<and>
         counted_ids st1 = counted_ids st2"
    by (auto simp: y_equiv_def run_eq)
qed

theorem x_coordinates_irrelevant_witness:
  "list_all2 agree_id_y
     [((0, 10, 0, 10), 7), ((0, 60, 0, 60), 8), ((0, 60, 0, 60), 7), ((0, 10, 0, 10), 8)]
     [((300, 10, 400, 10), 7), ((-5, 60, 90, 60), 8), ((17, 50, 18, 70), 7), ((1, 0, 2, 20), 8)] \<and>
   (\<exists>st1 st2.
      process_boxes (new_counter 50)
        (take 3 [((0, 10, 0, 10), 7), ((0, 60, 0, 60), 8), ((0, 60, 0, 60), 7), ((0, 10, 0, 10), 8)])
        = Inr (st1, [None, None, Some ENTRY]) \<and>
      process_boxes (new_counter 50)
        (take 3 [((300, 10, 400, 10), 7), ((-5, 60, 90, 60), 8), ((17, 50, 18, 70), 7), ((1, 0, 2, 20), 8)])
        = Inr (st2, [None, None, Some ENTRY]) \<and>
      entry_count st1 = entry_count st2 \<and> exit_count st1 = exit_count st2 \<and>
      history st1 7 \<noteq> history st2 7) \<and>
   list_all2 agree_id_y
     (detections [Some [((0, 10, 0, 10), 7)], Some [((0, 60, 0, 60), 7)]])
     (detections [Some [((300, 10, 400, 10), 7)], Some [((17, 50, 18, 70), 7)]]) \<and>
   (\<exists>st1 st2.
      run (new_counter 50) [Some [((0, 10, 0, 10), 7)], Some [((0, 60, 0, 60), 7)]]
        = Inr (st1, [None, Some ENTRY]) \<and>
      run (new_counter 50) [Some [((300, 10, 400, 10), 7)], Some [((17, 50, 18, 70), 7)]]
        = Inr (st2, [None, Some ENTRY]) \<and>
      entry_count st1 = entry_count st2 \<and> exit_count st1 = exit_count st2)"
proof -
  have c: "box_center (0, 10, 0, 10) = (0, 10)" "box_center (0, 60, 0, 60) = (0, 60)"
    "box_center (300, 10, 400, 10) = (350, 10)" "box_center (- 5, 60, 90, 60) = (42, 60)"
    "box_center (17, 50, 18, 70) = (17, 60)" "box_center (1, 0, 2, 20) = (1, 10)"
    by (simp_all add: box_center_def py_int_def)
  show ?thesis
    using x_coordinates_irrelevant [of
        "[((0, 10, 0, 10), 7), ((0, 60, 0, 60), 8), ((0, 60, 0, 60), 7), ((0, 10, 0, 10), 8)]"
        "[((300, 10, 400, 10), 7), ((-5, 60, 90, 60), 8), ((17, 50, 18, 70), 7), ((1, 0, 2, 20), 8)]"
        "new_counter 50" 3
        "[Some [((0, 10, 0, 10), 7)], Some [((0, 60, 0, 60), 7)]]"
        "[Some [((300, 10, 400, 10), 7)], Some [((17, 50, 18, 70), 7)]]"]
    by (simp add: agree_id_y_def detections_def c process_frame_def observe_def history_def
          pop0_def py_index_def new_counter_def Let_def)
qed

lemma py_int_bounds:
  "0 \<le> r \<Longrightarrow> 0 \<le> py_int r \<and> real_of_int (py_int r) \<le> r \<and> r < real_of_int (py_int r) + 1"
  by (simp add: py_int_def)

lemma py_int_of_int: "py_int (real_of_int k) = k"
  by (simp add: py_int_def)

section \<open>Double arithmetic in \<open>__init__\<close>\<close>

lemma powr_of_nat: "2 powr (real k) = (2::real) ^ k"
  by (simp add: powr_realpow)

lemma powr_nat_int: "0 \<le> e \<Longrightarrow> 2 powr (real_of_int e) = (2::real) ^ nat e"
  by (metis of_int_of_nat_eq int_nat_eq powr_of_nat of_nat_nat)

lemma float_val_powr: "float_val m e = real_of_int m * 2 powr (real_of_int e)"
proof (cases "0 \<le> e")
  case True
  then show ?thesis by (simp add: float_val_def powr_nat_int)
next
  case False
  define k where "k = nat (- e)"
  have e: "e = - int k" using False by (simp add: k_def)
  have "2 powr (- real k) = 1 / (2::real) ^ k"
    by (simp add: powr_minus powr_of_nat divide_inverse)
  then show ?thesis using False by (simp add: float_val_def e)
qed

lemma bitlen_upper: "0 \<le> a \<Longrightarrow> real_of_int a < 2 powr (real_of_int (bitlen a))"
proof -
  assume "0 \<le> a"
  have "bitlen a \<le> bitlen a" by simp
  then have "a < 2 ^ nat (bitlen a)" by (simp only: bitlen_le_iff_power)
  then have "real_of_int a < (2::real) ^ nat (bitlen a)"
    by (metis of_int_less_iff of_int_numeral of_int_power)
  then show ?thesis by (simp add: powr_nat_int bitlen_nonneg)
qed

lemma bitlen_lower: "0 < a \<Longrightarrow> 2 powr (real_of_int (bitlen a - 1)) \<le> real_of_int a"
proof -
  assume a: "0 < a"
  then have "2 ^ nat (bitlen a - 1) \<le> a" using bitlen_bounds[of a] by simp
  then have "(2::real) ^ nat (bitlen a - 1) \<le> real_of_int a"
    by (metis of_int_le_iff of_int_numeral of_int_power)
  moreover have "0 \<le> bitlen a - 1" using a by (simp add: bitlen_alt_def)
  then have "2 powr (real_of_int (bitlen a - 1)) = (2::real) ^ nat (bitlen a - 1)"
    by (rule powr_nat_int)
  ultimately show ?thesis by (simp only:)
qed

text \<open>A positive number below a power of two has few bits.\<close>

lemma bitlen_le_of_less:
  assumes "0 < q" and "real_of_int q * 2 powr (real_of_int e) < 2 powr (real_of_int k)"
  shows "bitlen q + e \<le> k"
proof -
  have "2 powr (real_of_int (bitlen q - 1)) * 2 powr (real_of_int e)
          \<le> real_of_int q * 2 powr (real_of_int e)"
    using bitlen_lower[OF assms(1)] by (intro mult_right_mono) simp_all
  moreover have "2 powr (real_of_int (bitlen q - 1)) * 2 powr (real_of_int e)
      = 2 powr (real_of_int (bitlen q - 1 + e))"
    by (simp add: powr_add)
  ultimately have "2 powr (real_of_int (bitlen q - 1 + e)) < 2 powr (real_of_int k)"
    using assms(2) by (simp only: le_less_trans)
  then have "real_of_int (bitlen q - 1 + e) < real_of_int k"
    by (simp only: powr_less_cancel_iff one_less_numeral_iff semiring_norm)
  then show ?thesis by linarith
qed

lemma rne_bounds:
  "a div 2 ^ s \<le> rne a s \<and> rne a s \<le> a div 2 ^ s + 1"
  by (simp add: rne_def Let_def)

lemma rne_nonneg: "0 \<le> a \<Longrightarrow> 0 \<le> rne a s"
proof -
  assume "0 \<le> a"
  then have "0 \<le> a div 2 ^ s" by (simp add: pos_imp_zdiv_nonneg_iff)
  with rne_bounds[of a s] show ?thesis by linarith
qed

lemma rne_le:
  assumes "a \<le> A * 2 ^ s"
  shows "rne a s \<le> A"
proof -
  have p: "(0::int) < 2 ^ s" by simp
  have "a div 2 ^ s \<le> (A * 2 ^ s) div 2 ^ s"
    using assms p by (intro zdiv_mono1) simp_all
  then have q: "a div 2 ^ s \<le> A" by simp
  show ?thesis
  proof (cases "a div 2 ^ s = A")
    case True
    have "a = (a div 2 ^ s) * 2 ^ s + a mod 2 ^ s" by (rule div_mult_mod_eq[symmetric])
    then have "a = A * 2 ^ s + a mod 2 ^ s" by (simp only: True)
    with assms have "a mod 2 ^ s \<le> 0" by linarith
    moreover have "0 \<le> a mod 2 ^ s" using p by simp
    ultimately have "a mod 2 ^ s = 0" by simp
    then show ?thesis using True by (simp add: rne_def Let_def)
  next
    case False
    with q have "a div 2 ^ s + 1 \<le> A" by simp
    with rne_bounds[of a s] show ?thesis by linarith
  qed
qed

lemma rne_times_le: "rne a s * 2 ^ s \<le> a + 2 ^ s"
proof -
  have "rne a s * 2 ^ s \<le> (a div 2 ^ s + 1) * 2 ^ s"
    using rne_bounds[of a s] by (intro mult_right_mono) simp_all
  also have "\<dots> = (a div 2 ^ s) * 2 ^ s + 2 ^ s" by (simp add: algebra_simps)
  also have "\<dots> \<le> a + 2 ^ s"
  proof -
    have "a = (a div 2 ^ s) * 2 ^ s + a mod 2 ^ s" by (rule div_mult_mod_eq[symmetric])
    moreover have "0 \<le> a mod (2::int) ^ s" by simp
    ultimately show ?thesis by linarith
  qed
  finally show ?thesis .
qed

lemma rne_exact: "rne (A * 2 ^ s) s = A"
proof -
  have "rne (A * 2 ^ s) s \<le> A" by (rule rne_le) simp
  moreover have "A \<le> rne (A * 2 ^ s) s" using rne_bounds[of "A * 2 ^ s" s] by simp
  ultimately show ?thesis by simp
qed

lemma rne_zero: "rne 0 s = 0"
  using rne_exact[of 0 s] by simp

lemma int_of_float_floor:
  assumes "0 \<le> m"
  shows "int_of_float (Finite m e) = Inr \<lfloor>real_of_int m * 2 powr (real_of_int e)\<rfloor>"
proof (cases "0 \<le> e")
  case True
  have "real_of_int m * 2 powr (real_of_int e) = real_of_int (m * 2 ^ nat e)"
    using True by (simp add: powr_nat_int)
  then have "\<lfloor>real_of_int m * 2 powr (real_of_int e)\<rfloor> = m * 2 ^ nat e"
    by (simp only: floor_of_int)
  then show ?thesis using True by (simp add: int_of_float_def)
next
  case False
  have v: "real_of_int m * 2 powr (real_of_int e) = real_of_int m / real_of_int (2 ^ nat (- e))"
    using float_val_powr[of m e] False by (simp add: float_val_def)
  have "\<lfloor>real_of_int m / real_of_int (2 ^ nat (- e))\<rfloor> = m div 2 ^ nat (- e)"
    by (rule floor_divide_of_int_eq)
  moreover have "sgn m * (\<bar>m\<bar> div 2 ^ nat (- e)) = m div 2 ^ nat (- e)"
    using assms by (cases "m = 0") simp_all
  ultimately show ?thesis using False v by (simp add: int_of_float_def)
qed

lemma round_double_keep:
  assumes "max (bitlen \<bar>n\<bar> - 53) (- 1074 - e) \<le> 0"
  shows "round_double n e =
           (if \<bar>n\<bar> \<noteq> 0 \<and> 1024 < bitlen \<bar>n\<bar> + e then (if 0 < n then PosInf else NegInf)
            else Finite n e)"
proof -
  have "sgn n * \<bar>n\<bar> = n" by (simp only: mult_sgn_abs)
  then show ?thesis
    unfolding round_double_def Let_def by (simp only: assms if_True)
qed

lemma round_double_drop:
  assumes "0 < max (bitlen \<bar>n\<bar> - 53) (- 1074 - e)"
  shows "round_double n e =
           (if rne \<bar>n\<bar> (nat (max (bitlen \<bar>n\<bar> - 53) (- 1074 - e))) \<noteq> 0 \<and>
               1024 < bitlen (rne \<bar>n\<bar> (nat (max (bitlen \<bar>n\<bar> - 53) (- 1074 - e)))) +
                        (e + max (bitlen \<bar>n\<bar> - 53) (- 1074 - e))
            then (if 0 < n then PosInf else NegInf)
            else Finite (sgn n * rne \<bar>n\<bar> (nat (max (bitlen \<bar>n\<bar> - 53) (- 1074 - e))))
                   (e + max (bitlen \<bar>n\<bar> - 53) (- 1074 - e)))"
proof -
  have "\<not> max (bitlen \<bar>n\<bar> - 53) (- 1074 - e) \<le> 0" using assms by (simp only: not_le)
  then show ?thesis
    unfolding round_double_def Let_def by (simp only: if_False)
qed

lemma round_double_le:
  assumes n0: "0 \<le> n" and M0: "0 \<le> M" and bM: "bitlen M \<le> 53" and E: "- 1074 \<le> E"
    and top: "bitlen M + E \<le> 1024"
    and le: "real_of_int n * 2 powr (real_of_int e) \<le> real_of_int M * 2 powr (real_of_int E)"
  shows "\<exists>q e'. round_double n e = Finite q e' \<and> 0 \<le> q \<and>
           real_of_int q * 2 powr (real_of_int e') \<le> real_of_int M * 2 powr (real_of_int E)"
proof -
  let ?H = "real_of_int M * 2 powr (real_of_int E)"
  have Hlt: "?H < 2 powr (real_of_int (bitlen M + E))"
  proof -
    have "?H < 2 powr (real_of_int (bitlen M)) * 2 powr (real_of_int E)"
      using bitlen_upper[OF M0] by (intro mult_strict_right_mono) simp_all
    then show ?thesis by (simp add: powr_add)
  qed
  have H53: "?H < 2 powr (real_of_int (53 + E))"
  proof -
    have "2 powr (real_of_int (bitlen M + E)) \<le> 2 powr (real_of_int (53 + E))"
      using bM by (intro powr_mono) simp_all
    with Hlt show ?thesis by linarith
  qed
  have H1024: "?H < 2 powr (real_of_int 1024)"
  proof -
    have "2 powr (real_of_int (bitlen M + E)) \<le> 2 powr (real_of_int 1024)"
      using top by (intro powr_mono) simp_all
    with Hlt show ?thesis by linarith
  qed
  define s where "s = max (bitlen n - 53) (- 1074 - e)"
  have an: "\<bar>n\<bar> = n" using n0 by simp
  show ?thesis
  proof (cases "s \<le> 0")
    case True
    have nov: "\<not> (n \<noteq> 0 \<and> 1024 < bitlen n + e)"
    proof
      assume a: "n \<noteq> 0 \<and> 1024 < bitlen n + e"
      then have "0 < n" using n0 by simp
      moreover have "real_of_int n * 2 powr (real_of_int e) < 2 powr (real_of_int 1024)"
        using le H1024 by linarith
      ultimately have "bitlen n + e \<le> 1024" by (rule bitlen_le_of_less)
      with a show False by simp
    qed
    from True have "max (bitlen \<bar>n\<bar> - 53) (- 1074 - e) \<le> 0" by (simp only: s_def an)
    from round_double_keep[OF this] have "round_double n e =
        (if n \<noteq> 0 \<and> 1024 < bitlen n + e then (if 0 < n then PosInf else NegInf) else Finite n e)"
      by (simp only: an)
    then have "round_double n e = Finite n e"
      by (simp only: nov if_False)
    with n0 le show ?thesis by blast
  next
    case False
    then have sp: "0 < s" by simp
    define q where "q = rne n (nat s)"
    have q0: "0 \<le> q" unfolding q_def using n0 by (rule rne_nonneg)
    have es: "e + s \<le> E"
    proof (cases "n = 0")
      case True
      then have "s = - 1074 - e" using sp by (simp add: s_def max_def split: if_splits)
      then show ?thesis using E by simp
    next
      case False
      then have "0 < n" using n0 by simp
      moreover have "real_of_int n * 2 powr (real_of_int e) < 2 powr (real_of_int (53 + E))"
        using le H53 by linarith
      ultimately have "bitlen n + e \<le> 53 + E" by (rule bitlen_le_of_less)
      then show ?thesis using E by (simp add: s_def max_def)
    qed
    define A where "A = M * 2 ^ nat (E - (e + s))"
    have HA: "?H = real_of_int A * 2 powr (real_of_int (e + s))"
    proof -
      have "2 powr (real_of_int E) = 2 powr (real_of_int (E - (e + s))) * 2 powr (real_of_int (e + s))"
        by (simp add: powr_add[symmetric])
      also have "2 powr (real_of_int (E - (e + s))) = 2 ^ nat (E - (e + s))"
        using es by (intro powr_nat_int) simp
      finally show ?thesis by (simp add: A_def)
    qed
    have sE: "2 powr (real_of_int (e + s)) = 2 powr (real_of_int e) * 2 ^ nat s"
    proof -
      have "2 powr (real_of_int s) = (2::real) ^ nat s" using sp by (intro powr_nat_int) simp
      then show ?thesis by (simp add: powr_add)
    qed
    have "real_of_int n * 2 powr (real_of_int e) \<le> (real_of_int A * 2 ^ nat s) * 2 powr (real_of_int e)"
      using le HA sE by (simp add: mult.commute mult.left_commute)
    then have "real_of_int n \<le> real_of_int A * 2 ^ nat s"
      by (simp only: mult_le_cancel_right) (simp add: not_less)
    then have "real_of_int n \<le> real_of_int (A * 2 ^ nat s)" by simp
    then have "n \<le> A * 2 ^ nat s" by (simp only: of_int_le_iff)
    then have qA: "q \<le> A" unfolding q_def by (rule rne_le)
    have val: "real_of_int q * 2 powr (real_of_int (e + s)) \<le> ?H"
      unfolding HA using qA by (intro mult_right_mono) simp_all
    have nov: "\<not> (q \<noteq> 0 \<and> 1024 < bitlen q + (e + s))"
    proof
      assume a: "q \<noteq> 0 \<and> 1024 < bitlen q + (e + s)"
      then have "0 < q" using q0 by simp
      moreover have "real_of_int q * 2 powr (real_of_int (e + s)) < 2 powr (real_of_int 1024)"
        using val H1024 by linarith
      ultimately have "bitlen q + (e + s) \<le> 1024" by (rule bitlen_le_of_less)
      with a show False by simp
    qed
    have "sgn n * q = q"
    proof (cases "n = 0")
      case True
      then show ?thesis by (simp add: q_def rne_zero)
    next
      case False
      then show ?thesis using n0 by simp
    qed
    then have sq: "sgn n * q = q" .
    from sp have "0 < max (bitlen \<bar>n\<bar> - 53) (- 1074 - e)" by (simp only: s_def an)
    from round_double_drop[OF this] have "round_double n e =
        (if q \<noteq> 0 \<and> 1024 < bitlen q + (e + s) then (if 0 < n then PosInf else NegInf)
         else Finite (sgn n * q) (e + s))"
      unfolding an s_def[symmetric] q_def[symmetric] .
    then have "round_double n e = Finite q (e + s)"
      by (simp only: nov if_False sq)
    with q0 val show ?thesis by blast
  qed
qed

lemma round_double_finite:
  assumes lt: "\<bar>real_of_int n\<bar> * 2 powr (real_of_int e) < 2 powr (real_of_int 1023)"
  shows "\<exists>q e'. round_double n e = Finite q e'"
proof -
  define a where "a = \<bar>n\<bar>"
  have a0: "0 \<le> a" by (simp add: a_def)
  have alt: "real_of_int a * 2 powr (real_of_int e) < 2 powr (real_of_int 1023)"
    using lt by (simp add: a_def)
  have ab: "bitlen a + e \<le> 1023" if "0 < a"
    using that alt by (rule bitlen_le_of_less)
  define s where "s = max (bitlen a - 53) (- 1074 - e)"
  show ?thesis
  proof (cases "s \<le> 0")
    case True
    have nov: "\<not> (a \<noteq> 0 \<and> 1024 < bitlen a + e)"
      using ab a0 by fastforce
    from True have "max (bitlen \<bar>n\<bar> - 53) (- 1074 - e) \<le> 0" by (simp only: s_def a_def)
    from round_double_keep[OF this] have "round_double n e =
        (if a \<noteq> 0 \<and> 1024 < bitlen a + e then (if 0 < n then PosInf else NegInf) else Finite n e)"
      unfolding a_def .
    then have "round_double n e = Finite n e" by (simp only: nov if_False)
    then show ?thesis by blast
  next
    case False
    then have sp: "0 < s" by simp
    define q where "q = rne a (nat s)"
    have q0: "0 \<le> q" unfolding q_def using a0 by (rule rne_nonneg)
    have nov: "\<not> (q \<noteq> 0 \<and> 1024 < bitlen q + (e + s))"
    proof
      assume c: "q \<noteq> 0 \<and> 1024 < bitlen q + (e + s)"
      then have qp: "0 < q" using q0 by simp
      have ap: "0 < a"
      proof (rule ccontr)
        assume "\<not> 0 < a"
        then have "a = 0" using a0 by simp
        then have "q = 0" by (simp add: q_def rne_zero)
        with qp show False by simp
      qed
      have es: "e + s \<le> 1023" using ab[OF ap] by (simp add: s_def max_def)
      have s2: "2 powr (real_of_int s) = (2::real) ^ nat s" using sp by (intro powr_nat_int) simp
      have "q * 2 ^ nat s \<le> a + 2 ^ nat s" unfolding q_def by (rule rne_times_le)
      then have "real_of_int (q * 2 ^ nat s) \<le> real_of_int (a + 2 ^ nat s)"
        by (simp only: of_int_le_iff)
      then have "real_of_int q * 2 powr (real_of_int s) \<le> real_of_int a + 2 powr (real_of_int s)"
        by (simp add: s2)
      then have "(real_of_int q * 2 powr (real_of_int s)) * 2 powr (real_of_int e)
                   \<le> (real_of_int a + 2 powr (real_of_int s)) * 2 powr (real_of_int e)"
        by (intro mult_right_mono) simp_all
      then have "real_of_int q * 2 powr (real_of_int (e + s))
                   \<le> real_of_int a * 2 powr (real_of_int e) + 2 powr (real_of_int (e + s))"
        by (simp add: powr_add algebra_simps)
      moreover have "2 powr (real_of_int (e + s)) \<le> 2 powr (real_of_int 1023)"
        using es by (intro powr_mono) simp_all
      moreover have "(2::real) powr (real_of_int 1023) + 2 powr (real_of_int 1023) = 2 powr (real_of_int 1024)"
      proof -
        have "(2::real) powr (real_of_int 1024) = 2 powr (real_of_int 1023) * 2 powr 1"
          by (simp only: powr_add[symmetric]) simp
        then show ?thesis by simp
      qed
      ultimately have "real_of_int q * 2 powr (real_of_int (e + s)) < 2 powr (real_of_int 1024)"
        using alt by linarith
      with qp have "bitlen q + (e + s) \<le> 1024" by (rule bitlen_le_of_less)
      with c show False by simp
    qed
    from sp have "0 < max (bitlen \<bar>n\<bar> - 53) (- 1074 - e)" by (simp only: s_def a_def)
    from round_double_drop[OF this] have "round_double n e =
        (if q \<noteq> 0 \<and> 1024 < bitlen q + (e + s) then (if 0 < n then PosInf else NegInf)
         else Finite (sgn n * q) (e + s))"
      unfolding a_def[symmetric] s_def[symmetric] q_def[symmetric] .
    then have "round_double n e = Finite (sgn n * q) (e + s)" by (simp only: nov if_False)
    then show ?thesis by blast
  qed
qed

text \<open>The integer part of a finite double converts back to a float exactly.\<close>

lemma float_of_int_exact:
  assumes fd: "finite_double (Finite m e)" and h: "int_of_float (Finite m e) = Inr h"
  shows "\<exists>mh eh. float_of_int h = Inr (Finite mh eh) \<and>
           real_of_int mh * 2 powr (real_of_int eh) = real_of_int h \<and>
           bitlen \<bar>mh\<bar> \<le> 53 \<and> 0 \<le> eh \<and> bitlen \<bar>mh\<bar> + eh \<le> 1024 \<and>
           (0 \<le> h \<longrightarrow> 0 \<le> mh)"
proof -
  from fd have bm: "bitlen \<bar>m\<bar> \<le> 53" and top: "bitlen \<bar>m\<bar> + e \<le> 1024"
    by (simp_all add: finite_double_def)
  define a where "a = \<bar>h\<bar>"
  have dn: "0 \<le> \<bar>m\<bar> div 2 ^ nat (- e)"
    by (simp add: pos_imp_zdiv_nonneg_iff)
  have ha: "a = (if 0 \<le> e then \<bar>m\<bar> * 2 ^ nat e else \<bar>m\<bar> div 2 ^ nat (- e))"
    using h dn by (auto simp: int_of_float_def a_def abs_mult abs_sgn_eq split: if_splits)
  have sh: "sgn h * a = h" by (simp add: a_def mult_sgn_abs)
  show ?thesis
  proof (cases "bitlen a \<le> 53")
    case True
    then have "max (bitlen \<bar>h\<bar> - 53) (- 1074 - 0) \<le> 0" by (simp add: a_def)
    from round_double_keep[OF this] True have "round_double h 0 = Finite h 0"
      by (simp add: a_def)
    then have "float_of_int h = Inr (Finite h 0)" by (simp add: float_of_int_def)
    then show ?thesis using True by (simp add: a_def)
  next
    case False
    then have big: "53 < bitlen a" by simp
    have e0: "0 \<le> e"
    proof (rule ccontr)
      assume "\<not> 0 \<le> e"
      then have "a = \<bar>m\<bar> div 2 ^ nat (- e)" using ha by simp
      also have "\<dots> \<le> \<bar>m\<bar>" by (cases "m = 0") (simp_all add: int_div_le_self)
      finally have "a \<le> \<bar>m\<bar>" .
      moreover have "\<bar>m\<bar> < 2 ^ nat 53" using bm by (simp only: bitlen_le_iff_power)
      ultimately have "a < 2 ^ nat 53" by linarith
      then have "bitlen a \<le> 53" by (simp only: bitlen_le_iff_power) simp
      with big show False by simp
    qed
    then have am: "a = \<bar>m\<bar> * 2 ^ nat e" using ha by simp
    have mp: "0 < \<bar>m\<bar>"
    proof (rule ccontr)
      assume "\<not> 0 < \<bar>m\<bar>"
      then have "a = 0" using am by simp
      with big show False by simp
    qed
    have ba: "bitlen a = bitlen \<bar>m\<bar> + e"
      using bitlen_pow2[OF mp, of "nat e"] e0 by (simp add: am)
    define s where "s = bitlen a - 53"
    have sp: "0 < s" and se: "s \<le> e" using big bm ba by (simp_all add: s_def)
    define q where "q = \<bar>m\<bar> * 2 ^ nat (e - s)"
    have aq: "a = q * 2 ^ nat s"
    proof -
      have "nat e = nat (e - s) + nat s" using sp se by simp
      then show ?thesis by (simp add: am q_def power_add)
    qed
    have rq: "rne a (nat s) = q" unfolding aq by (rule rne_exact)
    have bq: "bitlen q = 53"
      using bitlen_pow2[OF mp, of "nat (e - s)"] se ba by (simp add: q_def s_def)
    have qp: "0 < q" using mp by (simp add: q_def)
    have smax: "max (bitlen a - 53) (- 1074 - 0) = s"
      using sp by (simp add: s_def)
    then have "0 < max (bitlen \<bar>h\<bar> - 53) (- 1074 - 0)" using sp by (simp add: a_def)
    from round_double_drop[OF this] have "round_double h 0 =
        (if q \<noteq> 0 \<and> 1024 < bitlen q + (0 + s) then (if 0 < h then PosInf else NegInf)
         else Finite (sgn h * q) (0 + s))"
      unfolding a_def[symmetric] smax rq .
    moreover have "\<not> (q \<noteq> 0 \<and> 1024 < bitlen q + (0 + s))"
      using bq top ba by (simp add: s_def)
    ultimately have rd: "round_double h 0 = Finite (sgn h * q) s" by simp
    then have f: "float_of_int h = Inr (Finite (sgn h * q) s)" by (simp add: float_of_int_def)
    have hn: "h \<noteq> 0" using qp aq by (auto simp: a_def)
    have absq: "\<bar>sgn h * q\<bar> = q" using hn qp by (simp add: abs_mult abs_sgn_eq)
    have "real_of_int (sgn h * q) * 2 powr (real_of_int s) = real_of_int (sgn h * q * 2 ^ nat s)"
      using sp by (simp add: powr_nat_int)
    also have "sgn h * q * 2 ^ nat s = h" using aq sh by (simp add: mult.assoc)
    finally have v: "real_of_int (sgn h * q) * 2 powr (real_of_int s) = real_of_int h" .
    have nn: "0 \<le> h \<longrightarrow> 0 \<le> sgn h * q" using qp hn by (auto simp: sgn_if)
    show ?thesis
      using f v absq bq sp top ba nn by (intro exI[of _ "sgn h * q"] exI[of _ s]) (simp add: s_def)
  qed
qed

lemma init_opened:
  assumes "isOpened cap" and "is_finite (frame_width cap)" and "is_finite (fps cap)"
    and "is_finite (frame_count cap)" and "int_of_float (frame_height cap) = Inr h"
  shows "FootfallCounter_init cap roi_position =
           (case float_of_int h of
              Inl err \<Rightarrow> Inl err
            | Inr height_float \<Rightarrow>
                (case int_of_float (float_mul height_float roi_position) of
                   Inl err \<Rightarrow> Inl err
                 | Inr line_y \<Rightarrow> Inr (new_counter line_y)))"
  using assms
  by (auto simp: FootfallCounter_init_def is_finite_def int_of_float_def
           split: py_float.splits sum.splits)

lemma init_new_counter:
  assumes "FootfallCounter_init cap roi_position = Inr st"
  shows "\<exists>line_y. st = new_counter line_y"
  using assms by (auto simp: FootfallCounter_init_def split: if_splits sum.splits)

text \<open>
  C4, as stated, fails: with a capture that opened, \<open>__init__\<close> returns a counter for
  \<open>roi_position\<close> 2 and - 1, outside [0, 1], and for a frame height of 0; nothing is
  raised.
\<close>

theorem init_no_validation_counterexample:
  "FootfallCounter_init
     \<lparr>isOpened = True, frame_width = Finite 640 0, frame_height = Finite 100 0, fps = Finite 30 0, frame_count = Finite 900 0\<rparr>
     (Finite 2 0) = Inr (new_counter 200) \<and>
   FootfallCounter_init
     \<lparr>isOpened = True, frame_width = Finite 640 0, frame_height = Finite 100 0, fps = Finite 30 0, frame_count = Finite 900 0\<rparr>
     (Finite (- 1) 0) = Inr (new_counter (- 100)) \<and>
   FootfallCounter_init
     \<lparr>isOpened = True, frame_width = Finite 640 0, frame_height = Finite 0 0, fps = Finite 30 0, frame_count = Finite 900 0\<rparr>
     (Finite 1 (- 1)) = Inr (new_counter 0)"
proof -
  have "float_of_int 100 = Inr (Finite 100 0)" "float_of_int 0 = Inr (Finite 0 0)"
    "int_of_float (float_mul (Finite 100 0) (Finite 2 0)) = Inr 200"
    "int_of_float (float_mul (Finite 100 0) (Finite (- 1) 0)) = Inr (- 100)"
    "int_of_float (float_mul (Finite 0 0) (Finite 1 (- 1))) = Inr 0"
    by code_simp+
  then show ?thesis
    by (simp add: FootfallCounter_init_def int_of_float_def)
qed

text \<open>
  C4, amended. \<open>__init__\<close> validates neither \<open>roi_position\<close> nor the frame height.
  It raises \<open>ValueError\<close> when the capture did not open, and whatever it returns has
  both counters 0, the counted set and every history empty. With the capture opened and
  finite properties: for a finite \<open>roi_position\<close> whose product with the height is below
  \<open>2 ^ 1023\<close> in magnitude, inside [0, 1] or not, it returns a counter with the line at
  \<open>int(height * roi_position)\<close>, the product rounded to a double; for \<open>roi_position\<close>
  in [0, 1] and a height that is not negative it returns a counter whose line lies between
  0 and the height; for a NaN it raises \<open>ValueError\<close>, for an infinity
  \<open>OverflowError\<close> (\<open>ValueError\<close> when the height is 0), the errors of \<open>int\<close> at
  line 47.
\<close>

theorem init_validates_nothing:
  "(\<not> isOpened cap \<longrightarrow> FootfallCounter_init cap roi_position = Inl ValueError) \<and>
   (FootfallCounter_init cap roi_position = Inr st \<longrightarrow>
      entry_count st = 0 \<and> exit_count st = 0 \<and> counted_ids st = {} \<and> history st t = []) \<and>
   (isOpened cap \<and> is_finite (frame_width cap) \<and> finite_double (frame_height cap) \<and>
    is_finite (fps cap) \<and> is_finite (frame_count cap) \<and>
    int_of_float (frame_height cap) = Inr h \<longrightarrow>
      (roi_position = NaN \<longrightarrow> FootfallCounter_init cap roi_position = Inl ValueError) \<and>
      (roi_position = PosInf \<or> roi_position = NegInf \<longrightarrow>
         FootfallCounter_init cap roi_position
           = Inl (if h = 0 then ValueError else OverflowError)) \<and>
      (roi_position = Finite m e \<and> \<bar>real_of_int h * float_val m e\<bar> < 2 ^ 1023 \<longrightarrow>
         (\<exists>line_y height_float. FootfallCounter_init cap roi_position = Inr (new_counter line_y) \<and>
            float_of_int h = Inr height_float \<and>
            int_of_float (float_mul height_float roi_position) = Inr line_y)) \<and>
      (roi_position = Finite m e \<and> 0 \<le> h \<and> 0 \<le> float_val m e \<and> float_val m e \<le> 1 \<longrightarrow>
         (\<exists>line_y. FootfallCounter_init cap roi_position = Inr (new_counter line_y) \<and>
            0 \<le> line_y \<and> line_y \<le> h)))"
proof (intro conjI impI)
  assume "\<not> isOpened cap"
  then show "FootfallCounter_init cap roi_position = Inl ValueError"
    by (simp add: FootfallCounter_init_def)
next
  assume "FootfallCounter_init cap roi_position = Inr st"
  then obtain l where "st = new_counter l" using init_new_counter by blast
  then show "entry_count st = 0" "exit_count st = 0" "counted_ids st = {}" "history st t = []"
    by (simp_all add: new_counter_def history_def)
next
  assume a: "isOpened cap \<and> is_finite (frame_width cap) \<and> finite_double (frame_height cap) \<and>
    is_finite (fps cap) \<and> is_finite (frame_count cap) \<and>
    int_of_float (frame_height cap) = Inr h"
  then obtain mc ec where fh: "frame_height cap = Finite mc ec"
    by (cases "frame_height cap") (simp_all add: finite_double_def)
  with a have fd: "finite_double (Finite mc ec)" and ih: "int_of_float (Finite mc ec) = Inr h"
    by simp_all
  from float_of_int_exact[OF fd ih] obtain mh eh where
    fi: "float_of_int h = Inr (Finite mh eh)"
    and vh: "real_of_int mh * 2 powr (real_of_int eh) = real_of_int h"
    and bh: "bitlen \<bar>mh\<bar> \<le> 53" and eh0: "0 \<le> eh" and top: "bitlen \<bar>mh\<bar> + eh \<le> 1024"
    and nn: "0 \<le> h \<longrightarrow> 0 \<le> mh"
    by blast
  have init: "FootfallCounter_init cap r =
      (case int_of_float (float_mul (Finite mh eh) r) of
         Inl err \<Rightarrow> Inl err | Inr line_y \<Rightarrow> Inr (new_counter line_y))" for r
    using init_opened[of cap h r] a fi by simp
  have mh0: "mh = 0 \<longleftrightarrow> h = 0"
  proof
    assume "mh = 0" then show "h = 0" using vh by simp
  next
    assume "h = 0"
    then have "real_of_int mh * 2 powr (real_of_int eh) = 0" using vh by simp
    then show "mh = 0" by simp
  qed
  {
    assume "roi_position = NaN"
    then show "FootfallCounter_init cap roi_position = Inl ValueError"
      by (simp add: init int_of_float_def)
  }
  {
    assume "roi_position = PosInf \<or> roi_position = NegInf"
    then show "FootfallCounter_init cap roi_position
           = Inl (if h = 0 then ValueError else OverflowError)"
      using mh0 by (auto simp: init int_of_float_def inf_times_def)
  }
  {
    assume r: "roi_position = Finite m e \<and> \<bar>real_of_int h * float_val m e\<bar> < 2 ^ 1023"
    have "\<bar>real_of_int (mh * m)\<bar> * 2 powr (real_of_int (eh + e))
            = \<bar>(real_of_int mh * 2 powr (real_of_int eh)) * (real_of_int m * 2 powr (real_of_int e))\<bar>"
      by (simp add: powr_add abs_mult)
    also have "\<dots> = \<bar>real_of_int h * float_val m e\<bar>"
      by (simp only: vh float_val_powr)
    also have "\<dots> < 2 powr (real_of_int 1023)"
      using r by (simp add: powr_nat_int)
    finally obtain q e' where "round_double (mh * m) (eh + e) = Finite q e'"
      using round_double_finite by blast
    then obtain l where "int_of_float (float_mul (Finite mh eh) roi_position) = Inr l"
      using r by (simp add: int_of_float_def)
    then show "\<exists>line_y height_float. FootfallCounter_init cap roi_position = Inr (new_counter line_y) \<and>
            float_of_int h = Inr height_float \<and>
            int_of_float (float_mul height_float roi_position) = Inr line_y"
      using fi by (simp add: init)
  }
  {
    assume r: "roi_position = Finite m e \<and> 0 \<le> h \<and> 0 \<le> float_val m e \<and> float_val m e \<le> 1"
    then have mh_nn: "0 \<le> mh" using nn by simp
    have m_nn: "0 \<le> m"
    proof -
      have "0 \<le> real_of_int m * 2 powr (real_of_int e)" using r by (simp add: float_val_powr)
      then have "0 \<le> real_of_int m" by (simp add: zero_le_mult_iff)
      then show ?thesis by simp
    qed
    have n0: "0 \<le> mh * m" using mh_nn m_nn by simp
    have "real_of_int (mh * m) * 2 powr (real_of_int (eh + e))
            = (real_of_int mh * 2 powr (real_of_int eh)) * (real_of_int m * 2 powr (real_of_int e))"
      by (simp add: powr_add)
    also have "\<dots> = real_of_int h * float_val m e"
      by (simp only: vh float_val_powr)
    also have "\<dots> \<le> real_of_int h * 1"
      using r by (intro mult_left_mono) simp_all
    finally have le: "real_of_int (mh * m) * 2 powr (real_of_int (eh + e))
        \<le> real_of_int mh * 2 powr (real_of_int eh)"
      by (simp add: vh)
    have amh: "\<bar>mh\<bar> = mh" using mh_nn by simp
    from round_double_le[OF n0 mh_nn _ _ _ le] bh eh0 top amh
    obtain q e' where rd: "round_double (mh * m) (eh + e) = Finite q e'" and q0: "0 \<le> q"
      and qle: "real_of_int q * 2 powr (real_of_int e') \<le> real_of_int h"
      by (auto simp: vh)
    define l where "l = \<lfloor>real_of_int q * 2 powr (real_of_int e')\<rfloor>"
    have il: "int_of_float (float_mul (Finite mh eh) roi_position) = Inr l"
      using r rd int_of_float_floor[OF q0, of e'] by (simp add: l_def)
    have "0 \<le> real_of_int q * 2 powr (real_of_int e')" using q0 by simp
    then have l0: "0 \<le> l" unfolding l_def by (simp only: zero_le_floor)
    have "l \<le> \<lfloor>real_of_int h\<rfloor>" unfolding l_def using qle by (rule floor_mono)
    then have lh: "l \<le> h" by simp
    show "\<exists>line_y. FootfallCounter_init cap roi_position = Inr (new_counter line_y) \<and>
            0 \<le> line_y \<and> line_y \<le> h"
      using il l0 lh by (intro exI[of _ l]) (simp add: init)
  }
qed

theorem init_validates_nothing_witness:
  "FootfallCounter_init
     \<lparr>isOpened = False, frame_width = Finite 0 0, frame_height = Finite 0 0, fps = Finite 0 0, frame_count = Finite 0 0\<rparr>
     (Finite 1 (- 1)) = Inl ValueError \<and>
   is_finite (frame_width \<lparr>isOpened = True, frame_width = Finite 640 0, frame_height = Finite 480 0, fps = Finite 30 0, frame_count = Finite 900 0\<rparr>) \<and>
   finite_double (frame_height \<lparr>isOpened = True, frame_width = Finite 640 0, frame_height = Finite 480 0, fps = Finite 30 0, frame_count = Finite 900 0\<rparr>) \<and>
   int_of_float (frame_height \<lparr>isOpened = True, frame_width = Finite 640 0, frame_height = Finite 480 0, fps = Finite 30 0, frame_count = Finite 900 0\<rparr>) = Inr 480 \<and>
   FootfallCounter_init
     \<lparr>isOpened = True, frame_width = Finite 640 0, frame_height = Finite 480 0, fps = Finite 30 0, frame_count = Finite 900 0\<rparr>
     NaN = Inl ValueError \<and>
   FootfallCounter_init
     \<lparr>isOpened = True, frame_width = Finite 640 0, frame_height = Finite 480 0, fps = Finite 30 0, frame_count = Finite 900 0\<rparr>
     PosInf = Inl OverflowError \<and>
   FootfallCounter_init
     \<lparr>isOpened = True, frame_width = Finite 640 0, frame_height = Finite 480 0, fps = Finite 30 0, frame_count = Finite 900 0\<rparr>
     NegInf = Inl OverflowError \<and>
   \<bar>real_of_int 480 * float_val 3 (- 1)\<bar> < 2 ^ 1023 \<and>
   FootfallCounter_init
     \<lparr>isOpened = True, frame_width = Finite 640 0, frame_height = Finite 480 0, fps = Finite 30 0, frame_count = Finite 900 0\<rparr>
     (Finite 3 (- 1)) = Inr (new_counter 720) \<and>
   0 \<le> float_val 3152519739159347 (- 52) \<and> float_val 3152519739159347 (- 52) \<le> 1 \<and>
   FootfallCounter_init
     \<lparr>isOpened = True, frame_width = Finite 640 0, frame_height = Finite 480 0, fps = Finite 30 0, frame_count = Finite 900 0\<rparr>
     (Finite 3152519739159347 (- 52)) = Inr (new_counter 336) \<and>
   entry_count (new_counter 336) = 0 \<and> counted_ids (new_counter 336) = {} \<and>
   FootfallCounter_init
     \<lparr>isOpened = True, frame_width = Finite 640 0, frame_height = Finite 480 0, fps = Finite 30 0, frame_count = Finite 900 0\<rparr>
     (Finite 156575653125701 976) = Inl OverflowError"
proof -
  let ?cap = "\<lparr>isOpened = True, frame_width = Finite 640 0, frame_height = Finite 480 0, fps = Finite 30 0, frame_count = Finite 900 0\<rparr>"
  let ?closed = "\<lparr>isOpened = False, frame_width = Finite 0 0, frame_height = Finite 0 0, fps = Finite 0 0, frame_count = Finite 0 0\<rparr>"
  have c: "isOpened ?cap \<and> is_finite (frame_width ?cap) \<and> finite_double (frame_height ?cap) \<and>
    is_finite (fps ?cap) \<and> is_finite (frame_count ?cap) \<and>
    int_of_float (frame_height ?cap) = Inr 480"
  proof -
    have "bitlen 480 = 9" by code_simp
    then show ?thesis by (simp add: is_finite_def finite_double_def int_of_float_def)
  qed
  have e: "float_of_int 480 = Inr (Finite 480 0)"
    "int_of_float (float_mul (Finite 480 0) (Finite 3 (- 1))) = Inr 720"
    "int_of_float (float_mul (Finite 480 0) (Finite 3152519739159347 (- 52))) = Inr 336"
    "int_of_float (float_mul (Finite 480 0) (Finite 156575653125701 976)) = Inl OverflowError"
    by code_simp+
  have v: "\<bar>real_of_int 480 * float_val 3 (- 1)\<bar> < 2 ^ 1023"
    "0 \<le> float_val 3152519739159347 (- 52)" "float_val 3152519739159347 (- 52) \<le> 1"
    by (simp_all add: float_val_def)
  note t = init_validates_nothing
  have w1: "FootfallCounter_init ?closed (Finite 1 (- 1)) = Inl ValueError"
    using t [of ?closed "Finite 1 (- 1)"] by simp
  have w2: "FootfallCounter_init ?cap NaN = Inl ValueError"
    using t [of ?cap NaN _ _ 480] c by simp
  have w3: "FootfallCounter_init ?cap PosInf = Inl OverflowError"
    "FootfallCounter_init ?cap NegInf = Inl OverflowError"
    using t [of ?cap PosInf _ _ 480] t [of ?cap NegInf _ _ 480] c by simp_all
  have w4: "FootfallCounter_init ?cap (Finite 3 (- 1)) = Inr (new_counter 720)"
    using t [of ?cap "Finite 3 (- 1)" _ _ 480 3 "- 1"] c v e by auto
  have w5: "FootfallCounter_init ?cap (Finite 3152519739159347 (- 52)) = Inr (new_counter 336)"
    using t [of ?cap "Finite 3152519739159347 (- 52)" _ _ 480 3152519739159347 "- 52"] c v e
    by auto
  have w6: "entry_count (new_counter 336) = 0 \<and> counted_ids (new_counter 336) = {}"
    using t [of ?cap "Finite 3152519739159347 (- 52)" "new_counter 336"] w5 by simp
  have w7: "FootfallCounter_init ?cap (Finite 156575653125701 976) = Inl OverflowError"
    using e by (simp add: FootfallCounter_init_def int_of_float_def)
  show ?thesis
    using c v w1 w2 w3 w4 w5 w6 w7 by simp
qed

lemma half_floor: "(a + b) div 2 = \<lfloor>(real_of_int a + real_of_int b) / 2\<rfloor>" for a b :: int
proof -
  have "\<lfloor>real_of_int (a + b) / real_of_int 2\<rfloor> = (a + b) div 2"
    by (rule floor_divide_of_int_eq)
  then show ?thesis by simp
qed

lemma half_near:
  fixes a b :: int and x y :: real
  assumes "real_of_int a \<le> x" "x < real_of_int a + 1" "real_of_int b \<le> y" "y < real_of_int b + 1"
  shows "(x + y) / 2 - 3 / 2 < real_of_int ((a + b) div 2) \<and> real_of_int ((a + b) div 2) \<le> (x + y) / 2"
proof -
  define m where "m = (a + b) div 2"
  have "2 * m \<le> a + b" "a + b - 1 \<le> 2 * m"
    unfolding m_def by presburger+
  then have "2 * real_of_int m \<le> real_of_int a + real_of_int b"
    "real_of_int a + real_of_int b - 1 \<le> 2 * real_of_int m"
    by linarith+
  with assms have "(x + y) / 2 - 3 / 2 < real_of_int m \<and> real_of_int m \<le> (x + y) / 2"
    by (simp add: field_simps)
  then show ?thesis unfolding m_def .
qed

lemma half_exact:
  fixes a b :: int
  assumes "even (a + b)"
  shows "real_of_int ((a + b) div 2) = (real_of_int a + real_of_int b) / 2"
proof -
  from assms have "2 * ((a + b) div 2) = a + b" by simp
  then have "2 * real_of_int ((a + b) div 2) = real_of_int a + real_of_int b" by linarith
  then show ?thesis by simp
qed

text \<open>
  C8, as stated, fails: the box with corners (0, 0) and (1, 1) has the geometric centre
  (1/2, 1/2) and the code feeds (0, 0); the box with corners (0.9, 0.9) and (1.9, 1.9) has
  the centre (1.4, 1.4) and the code feeds (0, 0) as well.
\<close>

theorem box_center_not_geometric_counterexample:
  "box_center (0, 0, 1, 1) = (0, 0) \<and>
   real_of_int (fst (box_center (0, 0, 1, 1))) \<noteq> (0 + 1) / 2 \<and>
   real_of_int (snd (box_center (0, 0, 1, 1))) \<noteq> (0 + 1) / 2 \<and>
   box_center (9 / 10, 9 / 10, 19 / 10, 19 / 10) = (0, 0) \<and>
   real_of_int (fst (box_center (9 / 10, 9 / 10, 19 / 10, 19 / 10))) \<noteq> (9 / 10 + 19 / 10) / 2"
  by (simp add: box_center_def py_int_def)

text \<open>
  C8, amended. The position fed to the crossing logic is the centre in integer arithmetic:
  every corner coordinate is truncated to an integer and each component is the floor of
  half the sum of the two truncated coordinates. For coordinates that are not negative the
  component lies in the interval from the geometric centre's minus 3/2, excluded, to the
  geometric centre's, included; it is the geometric centre's when both coordinates are
  integers with an even sum. That position is the entry appended to the track's history.
\<close>

theorem box_center_floor:
  "box_center (x1, y1, x2, y2) =
     (\<lfloor>(real_of_int (py_int x1) + real_of_int (py_int x2)) / 2\<rfloor>,
      \<lfloor>(real_of_int (py_int y1) + real_of_int (py_int y2)) / 2\<rfloor>) \<and>
   (0 \<le> x1 \<and> 0 \<le> x2 \<longrightarrow>
      (x1 + x2) / 2 - 3 / 2 < real_of_int (fst (box_center (x1, y1, x2, y2))) \<and>
      real_of_int (fst (box_center (x1, y1, x2, y2))) \<le> (x1 + x2) / 2) \<and>
   (0 \<le> y1 \<and> 0 \<le> y2 \<longrightarrow>
      (y1 + y2) / 2 - 3 / 2 < real_of_int (snd (box_center (x1, y1, x2, y2))) \<and>
      real_of_int (snd (box_center (x1, y1, x2, y2))) \<le> (y1 + y2) / 2) \<and>
   (x1 \<in> \<int> \<and> x2 \<in> \<int> \<and> even (py_int x1 + py_int x2) \<longrightarrow>
      real_of_int (fst (box_center (x1, y1, x2, y2))) = (x1 + x2) / 2) \<and>
   (y1 \<in> \<int> \<and> y2 \<in> \<int> \<and> even (py_int y1 + py_int y2) \<longrightarrow>
      real_of_int (snd (box_center (x1, y1, x2, y2))) = (y1 + y2) / 2) \<and>
   (\<exists>st' ev. process_boxes st [((x1, y1, x2, y2), track_id)] = Inr (st', [ev]) \<and>
      last (history st' track_id) = box_center (x1, y1, x2, y2))"
proof (intro conjI impI)
  show "box_center (x1, y1, x2, y2) =
     (\<lfloor>(real_of_int (py_int x1) + real_of_int (py_int x2)) / 2\<rfloor>,
      \<lfloor>(real_of_int (py_int y1) + real_of_int (py_int y2)) / 2\<rfloor>)"
    by (simp add: box_center_def half_floor)
next
  assume "0 \<le> x1 \<and> 0 \<le> x2"
  then show "(x1 + x2) / 2 - 3 / 2 < real_of_int (fst (box_center (x1, y1, x2, y2)))"
    and "real_of_int (fst (box_center (x1, y1, x2, y2))) \<le> (x1 + x2) / 2"
    using half_near[of "py_int x1" x1 "py_int x2" x2] py_int_bounds[of x1] py_int_bounds[of x2]
    by (simp_all add: box_center_def)
next
  assume "0 \<le> y1 \<and> 0 \<le> y2"
  then show "(y1 + y2) / 2 - 3 / 2 < real_of_int (snd (box_center (x1, y1, x2, y2)))"
    and "real_of_int (snd (box_center (x1, y1, x2, y2))) \<le> (y1 + y2) / 2"
    using half_near[of "py_int y1" y1 "py_int y2" y2] py_int_bounds[of y1] py_int_bounds[of y2]
    by (simp_all add: box_center_def)
next
  assume a: "x1 \<in> \<int> \<and> x2 \<in> \<int> \<and> even (py_int x1 + py_int x2)"
  then have "x1 \<in> \<int>" "x2 \<in> \<int>" by simp_all
  then obtain a1 a2 where "x1 = real_of_int a1" "x2 = real_of_int a2"
    unfolding Ints_def by blast
  with a show "real_of_int (fst (box_center (x1, y1, x2, y2))) = (x1 + x2) / 2"
    using half_exact[of a1 a2] by (simp add: box_center_def py_int_of_int)
next
  assume a: "y1 \<in> \<int> \<and> y2 \<in> \<int> \<and> even (py_int y1 + py_int y2)"
  then have "y1 \<in> \<int>" "y2 \<in> \<int>" by simp_all
  then obtain a1 a2 where "y1 = real_of_int a1" "y2 = real_of_int a2"
    unfolding Ints_def by blast
  with a show "real_of_int (snd (box_center (x1, y1, x2, y2))) = (y1 + y2) / 2"
    using half_exact[of a1 a2] by (simp add: box_center_def py_int_of_int)
next
  obtain st' ev where o: "observe st track_id (box_center (x1, y1, x2, y2)) = Inr (st', ev)"
    using observe_total by blast
  then have "process_boxes st [((x1, y1, x2, y2), track_id)] = Inr (st', [ev])"
    by simp
  moreover have "last (history st' track_id) = box_center (x1, y1, x2, y2)"
    using observe_history[OF o, of track_id] by (simp add: capped_last)
  ultimately show "\<exists>st' ev. process_boxes st [((x1, y1, x2, y2), track_id)] = Inr (st', [ev]) \<and>
      last (history st' track_id) = box_center (x1, y1, x2, y2)"
    by blast
qed

theorem box_center_floor_witness:
  "(0::real) \<le> 9 / 10 \<and> (0::real) \<le> 19 / 10 \<and> (0::real) \<le> 3 \<and> (0::real) \<le> 6 \<and>
   box_center (9 / 10, 3, 19 / 10, 6) = (0, 4) \<and>
   (9 / 10 + 19 / 10) / 2 - 3 / 2 < real_of_int (fst (box_center (9 / 10, 3, 19 / 10, 6))) \<and>
   real_of_int (fst (box_center (9 / 10, 3, 19 / 10, 6))) \<le> (9 / 10 + 19 / 10) / 2 \<and>
   ((3::real) + 6) / 2 - 3 / 2 < real_of_int (snd (box_center (9 / 10, 3, 19 / 10, 6))) \<and>
   real_of_int (snd (box_center (9 / 10, 3, 19 / 10, 6))) \<le> (3 + 6) / 2 \<and>
   (10::real) \<in> \<int> \<and> (30::real) \<in> \<int> \<and> even (py_int 10 + py_int 30) \<and>
   (20::real) \<in> \<int> \<and> (60::real) \<in> \<int> \<and> even (py_int 20 + py_int 60) \<and>
   box_center (10, 20, 30, 60) = (20, 40) \<and>
   real_of_int (fst (box_center (10, 20, 30, 60))) = (10 + 30) / 2 \<and>
   real_of_int (snd (box_center (10, 20, 30, 60))) = (20 + 60) / 2"
  using box_center_floor [of "9 / 10" 3 "19 / 10" 6 "new_counter 50" 7]
        box_center_floor [of 10 20 30 60 "new_counter 50" 7]
  by (simp add: box_center_def py_int_def)

text \<open>
  C5. \<open>reset\<close> gives the state of a new counter with the same line: every history
  empty, the counted set empty, both counters 0, so that \<open>summary\<close> is (0, 0, 0). After
  it any identifier, counted before or not, triggers an event again: two observations
  that cross the line downwards give ENTRY and the summary (1, 0, 1), two that cross it
  upwards give EXIT and the summary (0, 1, - 1).
\<close>

theorem reset_restores_initial:
  "reset st = new_counter (roi_line_y st) \<and>
   summary (reset st) = (0, 0, 0) \<and> counted_ids (reset st) = {} \<and>
   history (reset st) t = [] \<and>
   (snd c1 < roi_line_y st \<and> roi_line_y st \<le> snd c2 \<longrightarrow>
      (\<exists>st1 st2. observe (reset st) track_id c1 = Inr (st1, None) \<and>
         observe st1 track_id c2 = Inr (st2, Some ENTRY) \<and> summary st2 = (1, 0, 1))) \<and>
   (roi_line_y st < snd c1 \<and> snd c2 \<le> roi_line_y st \<longrightarrow>
      (\<exists>st1 st2. observe (reset st) track_id c1 = Inr (st1, None) \<and>
         observe st1 track_id c2 = Inr (st2, Some EXIT) \<and> summary st2 = (0, 1, - 1)))"
proof (intro conjI impI)
  show "reset st = new_counter (roi_line_y st)"
    by (simp add: reset_def new_counter_def)
  show "summary (reset st) = (0, 0, 0)"
    by (simp add: reset_def summary_def)
  show "counted_ids (reset st) = {}"
    by (simp add: reset_def)
  show "history (reset st) t = []"
    by (simp add: reset_def history_def)
next
  assume "snd c1 < roi_line_y st \<and> roi_line_y st \<le> snd c2"
  then show "\<exists>st1 st2. observe (reset st) track_id c1 = Inr (st1, None) \<and>
         observe st1 track_id c2 = Inr (st2, Some ENTRY) \<and> summary st2 = (1, 0, 1)"
    by (simp add: observe_eq Let_def reset_def summary_def history_def capped_def)
next
  assume "roi_line_y st < snd c1 \<and> snd c2 \<le> roi_line_y st"
  then show "\<exists>st1 st2. observe (reset st) track_id c1 = Inr (st1, None) \<and>
         observe st1 track_id c2 = Inr (st2, Some EXIT) \<and> summary st2 = (0, 1, - 1)"
    by (simp add: observe_eq Let_def reset_def summary_def history_def capped_def)
qed

theorem reset_restores_initial_witness:
  "run (new_counter 50) [Some [((0, 10, 0, 10), 7)], Some [((0, 60, 0, 60), 7)]]
     = Inr ((\<lparr>roi_line_y = 50, entry_count = 1, exit_count = 0, counted_ids = {7}, track_history = [7 \<mapsto> [(0, 10), (0, 60)]]\<rparr>), [None, Some ENTRY]) \<and>
   summary (\<lparr>roi_line_y = 50, entry_count = 1, exit_count = 0, counted_ids = {7}, track_history = [7 \<mapsto> [(0, 10), (0, 60)]]\<rparr>) = (1, 0, 1) \<and>
   7 \<in> counted_ids (\<lparr>roi_line_y = 50, entry_count = 1, exit_count = 0, counted_ids = {7}, track_history = [7 \<mapsto> [(0, 10), (0, 60)]]\<rparr>) \<and>
   reset (\<lparr>roi_line_y = 50, entry_count = 1, exit_count = 0, counted_ids = {7}, track_history = [7 \<mapsto> [(0, 10), (0, 60)]]\<rparr>) = new_counter 50 \<and>
   summary (reset (\<lparr>roi_line_y = 50, entry_count = 1, exit_count = 0, counted_ids = {7}, track_history = [7 \<mapsto> [(0, 10), (0, 60)]]\<rparr>)) = (0, 0, 0) \<and>
   (snd (0::int, 10::int) < roi_line_y (\<lparr>roi_line_y = 50, entry_count = 1, exit_count = 0, counted_ids = {7}, track_history = [7 \<mapsto> [(0, 10), (0, 60)]]\<rparr>) \<and>
    roi_line_y (\<lparr>roi_line_y = 50, entry_count = 1, exit_count = 0, counted_ids = {7}, track_history = [7 \<mapsto> [(0, 10), (0, 60)]]\<rparr>) \<le> snd (0::int, 60::int)) \<and>
   (\<exists>st1 st2. observe (reset (\<lparr>roi_line_y = 50, entry_count = 1, exit_count = 0, counted_ids = {7}, track_history = [7 \<mapsto> [(0, 10), (0, 60)]]\<rparr>)) 7 (0, 10) = Inr (st1, None) \<and>
      observe st1 7 (0, 60) = Inr (st2, Some ENTRY) \<and> summary st2 = (1, 0, 1)) \<and>
   (\<exists>st1 st2. observe (reset (\<lparr>roi_line_y = 50, entry_count = 1, exit_count = 0, counted_ids = {7}, track_history = [7 \<mapsto> [(0, 10), (0, 60)]]\<rparr>)) 7 (0, 60) = Inr (st1, None) \<and>
      observe st1 7 (0, 10) = Inr (st2, Some EXIT) \<and> summary st2 = (0, 1, - 1)) \<and>
   run (reset (\<lparr>roi_line_y = 50, entry_count = 1, exit_count = 0, counted_ids = {7}, track_history = [7 \<mapsto> [(0, 10), (0, 60)]]\<rparr>)) [Some [((0, 10, 0, 10), 7)], Some [((0, 60, 0, 60), 7)]]
     = Inr ((\<lparr>roi_line_y = 50, entry_count = 1, exit_count = 0, counted_ids = {7}, track_history = [7 \<mapsto> [(0, 10), (0, 60)]]\<rparr>), [None, Some ENTRY])"
proof -
  have r: "run (new_counter 50) [Some [((0, 10, 0, 10), 7)], Some [((0, 60, 0, 60), 7)]]
     = Inr ((\<lparr>roi_line_y = 50, entry_count = 1, exit_count = 0, counted_ids = {7}, track_history = [7 \<mapsto> [(0, 10), (0, 60)]]\<rparr>), [None, Some ENTRY])"
    by (simp add: eval_simps)
  show ?thesis
    using r reset_restores_initial [of "(\<lparr>roi_line_y = 50, entry_count = 1, exit_count = 0, counted_ids = {7}, track_history = [7 \<mapsto> [(0, 10), (0, 60)]]\<rparr>)" 7 "(0, 10)" "(0, 60)" 7]
      reset_restores_initial [of "(\<lparr>roi_line_y = 50, entry_count = 1, exit_count = 0, counted_ids = {7}, track_history = [7 \<mapsto> [(0, 10), (0, 60)]]\<rparr>)" 7 "(0, 60)" "(0, 10)" 7]
    by (simp add: summary_def reset_def eval_simps)
qed

end
